(* ===== verification/Prelude.thy ===== *)
theory Prelude
  imports Main "HOL-Library.Multiset" "HOL-Library.Word"
begin

text \<open>
  Shared vocabulary of the development: Go's machine integers, the type of instants, and the
  generic facts on lists that several components use (updating one worker of a list of workers
  and what that does to sums and multisets over the list).
\<close>

section \<open>Types shared by the components\<close>

text \<open>
  Go's \<open>int\<close> and \<open>int64\<close> are 64-bit two's complement. Values are kept as HOL integers and every
  arithmetic operation that the code performs on them is wrapped explicitly by \<open>go_int\<close>.
\<close>

definition go_int :: "int \<Rightarrow> int" where
  "go_int x = signed_take_bit 63 x"

abbreviation int64_range :: "int \<Rightarrow> bool" where
  "int64_range x \<equiv> - (2 ^ 63) \<le> x \<and> x < 2 ^ 63"

lemma go_int_id: "int64_range x \<Longrightarrow> go_int x = x"
  by (simp add: go_int_def signed_take_bit_int_eq_self)

lemma go_int_range: "int64_range (go_int x)"
  using signed_take_bit_int_less_exp [of 63 x]
    signed_take_bit_int_greater_eq_minus_exp [of 63 x]
  by (auto simp: go_int_def)

text \<open>An instant or a duration, in nanoseconds (an instant counts from the Unix epoch, UTC).\<close>

type_synonym nanos = int

abbreviation Millisecond :: nanos where "Millisecond \<equiv> 1000000"
abbreviation Second :: nanos where "Second \<equiv> 1000000000"

section \<open>Collections of facts\<close>

named_theorems list_upd \<open>what updating one element does to a sum or a multiset over a list\<close>

lemma sum_list_update [list_upd]:
  fixes f :: "'a \<Rightarrow> 'b::comm_monoid_add"
  shows "i < length xs \<Longrightarrow>
    sum_list (map f (xs[i := x])) + f (xs ! i) = sum_list (map f xs) + f x"
proof (induction xs arbitrary: i)
  case Nil
  then show ?case by simp
next
  case (Cons y ys)
  show ?case
  proof (cases i)
    case 0
    then show ?thesis by (simp add: ac_simps)
  next
    case (Suc j)
    with Cons.prems have "j < length ys" by simp
    then have "sum_list (map f (ys[j := x])) + f (ys ! j) = sum_list (map f ys) + f x"
      by (rule Cons.IH)
    with Suc show ?thesis by (simp add: add.assoc)
  qed
qed

lemma sum_list_member_le:
  fixes f :: "'a \<Rightarrow> nat"
  shows "i < length xs \<Longrightarrow> f (xs ! i) \<le> sum_list (map f xs)"
  by (metis length_map member_le_sum_list nth_map nth_mem zero_le)

text \<open>A sum over a list, with one element set apart.\<close>

definition others :: "('a \<Rightarrow> 'b::comm_monoid_add) \<Rightarrow> 'a list \<Rightarrow> nat \<Rightarrow> 'b" where
  "others f xs i = sum_list (map f (take i xs)) + sum_list (map f (drop (Suc i) xs))"

lemma others_update:
  "i < length xs \<Longrightarrow> sum_list (map f (xs[i := x])) = others f xs i + f x"
  by (simp add: others_def upd_conv_take_nth_drop) (simp add: ac_simps)

lemma others_split:
  "xs ! i = x \<Longrightarrow> i < length xs \<Longrightarrow> sum_list (map f xs) = others f xs i + f x"
  using others_update [of i xs f x] by auto

lemma sum_list_all_zero:
  fixes f :: "'a \<Rightarrow> 'b::comm_monoid_add"
  shows "(\<And>x. x \<in> set xs \<Longrightarrow> f x = 0) \<Longrightarrow> sum_list (map f xs) = 0"
  by (induction xs) simp_all

lemma sum_list_positive:
  fixes f :: "'a \<Rightarrow> nat"
  shows "i < length xs \<Longrightarrow> 0 < f (xs ! i) \<Longrightarrow> 0 < sum_list (map f xs)"
  using sum_list_member_le [of i xs f] by linarith

lemma sum_list_replicate_empty: "sum_list (replicate n ({#} :: 'a multiset)) = {#}"
  by (induction n) simp_all

lemma mset_concat: "mset (concat xs) = sum_list (map mset xs)"
  by (induction xs) simp_all

lemma all_set_update:
  "\<forall>y \<in> set xs. P y \<Longrightarrow> P x \<Longrightarrow> \<forall>y \<in> set (xs[i := x]). P y"
  using set_update_subset_insert [of xs i x] by blast

lemma list_all_update: "list_all P xs \<Longrightarrow> P y \<Longrightarrow> list_all P (xs[i := y])"
  using set_update_subset_insert [of xs i y] by (auto simp: list_all_iff)

lemma nth_update_same [simp]: "i < length xs \<Longrightarrow> xs[i := x] ! i = x"
  by simp

section \<open>Go's integer division\<close>

text \<open>Division truncates towards zero, and the remainder has the sign of the dividend.\<close>

definition go_div :: "int \<Rightarrow> int \<Rightarrow> int" where
  "go_div a b = sgn a * sgn b * (\<bar>a\<bar> div \<bar>b\<bar>)"

definition go_mod :: "int \<Rightarrow> int \<Rightarrow> int" where
  "go_mod a b = a - b * go_div a b"

lemma go_div_nonneg: "0 \<le> a \<Longrightarrow> 0 < b \<Longrightarrow> go_div a b = a div b"
  by (cases "a = 0") (simp_all add: go_div_def)

lemma go_mod_nonneg: "0 \<le> a \<Longrightarrow> 0 < b \<Longrightarrow> go_mod a b = a mod b"
  by (simp add: go_mod_def go_div_nonneg minus_mult_div_eq_mod)

lemma div_less_of_mult: "0 < n \<Longrightarrow> a < b * n \<Longrightarrow> a div n < (b :: int)"
  using div_mult_mod_eq [of a n] pos_mod_sign [of n a] mult_less_cancel_right_pos [of n "a div n" b] by linarith

end
