(* ===== verification/GoStrings.thy ===== *)
theory GoStrings
  imports Prelude
begin

text \<open>
  The parts of Go's \<open>strings\<close>, \<open>strconv\<close> and \<open>fmt\<close> packages that the program uses, on byte
  strings: \<open>strings.Split\<close>, \<open>strings.SplitN\<close>, \<open>strings.Join\<close>, \<open>strconv.Atoi\<close> and the
  decimal formatting of \<open>fmt.Sprintf("%d")\<close>, with the facts that relate them.
\<close>

section \<open>Splitting and joining\<close>

fun Split :: "char \<Rightarrow> string \<Rightarrow> string list" where
  "Split c [] = [[]]"
| "Split c (x # xs) =
     (if x = c then [] # Split c xs
      else (case Split c xs of [] \<Rightarrow> [[x]] | p # ps \<Rightarrow> (x # p) # ps))"

fun SplitN :: "char \<Rightarrow> nat \<Rightarrow> string \<Rightarrow> string list" where
  "SplitN c 0 s = []"
| "SplitN c (Suc 0) s = [s]"
| "SplitN c (Suc (Suc n)) s =
     (if c \<in> set s
      then takeWhile (\<lambda>x. x \<noteq> c) s # SplitN c (Suc n) (tl (dropWhile (\<lambda>x. x \<noteq> c) s))
      else [s])"

fun Join :: "string \<Rightarrow> string list \<Rightarrow> string" where
  "Join sep [] = []"
| "Join sep [s] = s"
| "Join sep (s # t # ts) = s @ sep @ Join sep (t # ts)"

lemma Split_not_Nil [simp]: "Split c s \<noteq> []"
  by (induction s) (auto split: list.splits)

lemma Split_no_sep: "c \<notin> set s \<Longrightarrow> Split c s = [s]"
  by (induction s) auto

lemma Split_append_sep: "c \<notin> set s \<Longrightarrow> Split c (s @ c # t) = s # Split c t"
  by (induction s) auto

lemma Split_pieces: "p \<in> set (Split c s) \<Longrightarrow> c \<notin> set p"
proof (induction s arbitrary: p)
  case Nil
  then show ?case by simp
next
  case (Cons x xs)
  then show ?case by (cases "Split c xs") (auto split: if_splits)
qed

lemma Join_Cons: "ts \<noteq> [] \<Longrightarrow> Join sep (s # ts) = s @ sep @ Join sep ts"
  by (cases ts) auto

lemma Join_append:
  "xs \<noteq> [] \<Longrightarrow> ys \<noteq> [] \<Longrightarrow> Join sep (xs @ ys) = Join sep xs @ sep @ Join sep ys"
proof (induction xs)
  case Nil
  then show ?case by simp
next
  case (Cons x xs)
  then show ?case by (cases "xs = []") (simp_all add: Join_Cons)
qed

lemma Join_Split: "Join [c] (Split c s) = s"
proof (induction s)
  case Nil
  then show ?case by simp
next
  case (Cons x xs)
  then show ?case
    by (cases "Split c xs"; cases "tl (Split c xs)") (auto simp: Join_Cons)
qed

lemma Split_Join:
  "ss \<noteq> [] \<Longrightarrow> \<forall>s \<in> set ss. c \<notin> set s \<Longrightarrow> Split c (Join [c] ss) = ss"
proof (induction ss)
  case Nil
  then show ?case by simp
next
  case (Cons s ss)
  then show ?case by (cases "ss = []") (auto simp: Join_Cons Split_append_sep Split_no_sep)
qed

lemma set_Join: "set (Join sep ss) \<subseteq> set sep \<union> (\<Union>s \<in> set ss. set s)"
  by (induction sep ss rule: Join.induct) auto

text \<open>Splitting into at most three pieces, the shape the filter parser relies on.\<close>

lemma SplitN_one_sep [simp]:
  "c \<notin> set a \<Longrightarrow> SplitN c (Suc (Suc n)) (a @ c # b) = a # SplitN c (Suc n) b"
proof -
  assume c: "c \<notin> set a"
  then have "takeWhile (\<lambda>x. x \<noteq> c) (a @ c # b) = a"
    and "dropWhile (\<lambda>x. x \<noteq> c) (a @ c # b) = c # b"
    by (induction a) auto
  then show ?thesis by simp
qed

lemma SplitN_three:
  "c \<notin> set a \<Longrightarrow> c \<notin> set b \<Longrightarrow> SplitN c 3 (a @ c # b @ c # v) = [a, b, v]"
  by (simp add: numeral_3_eq_3 del: SplitN.simps(3))

lemma SplitN_threeD:
  assumes "SplitN c 3 s = [a, b, v]"
  shows "s = a @ c # b @ c # v" and "c \<notin> set a" and "c \<notin> set b"
proof -
  have split: "s = takeWhile (\<lambda>x. x \<noteq> c) s @ c # tl (dropWhile (\<lambda>x. x \<noteq> c) s)" if "c \<in> set s" for s
    using that by (induction s) auto
  have notin: "c \<notin> set (takeWhile (\<lambda>x. x \<noteq> c) s)" for s
    by (auto dest: set_takeWhileD)
  let ?t = "tl (dropWhile (\<lambda>x. x \<noteq> c) s)"
  from assms have "c \<in> set s" and a: "a = takeWhile (\<lambda>x. x \<noteq> c) s"
    and "SplitN c (Suc (Suc 0)) ?t = [b, v]"
    by (auto simp: numeral_3_eq_3 split: if_splits)
  then have "c \<in> set ?t" and b: "b = takeWhile (\<lambda>x. x \<noteq> c) ?t"
    and v: "v = tl (dropWhile (\<lambda>x. x \<noteq> c) ?t)"
    by (auto split: if_splits)
  from a notin show "c \<notin> set a" by simp
  from b notin show "c \<notin> set b" by simp
  from split [OF \<open>c \<in> set s\<close>] split [OF \<open>c \<in> set ?t\<close>] a b v show "s = a @ c # b @ c # v"
    by simp
qed

section \<open>Decimal numbers\<close>

definition digit_char :: "nat \<Rightarrow> char" where
  "digit_char d = char_of (48 + d)"

definition digit_val :: "char \<Rightarrow> nat option" where
  "digit_val c = (let n = of_char c :: nat in if 48 \<le> n \<and> n \<le> 57 then Some (n - 48) else None)"

fun digits :: "nat \<Rightarrow> string" where
  "digits n = (if n < 10 then [digit_char n] else digits (n div 10) @ [digit_char (n mod 10)])"

declare digits.simps [simp del]

definition Itoa :: "int \<Rightarrow> string" where
  "Itoa i = (if i < 0 then CHR ''-'' # digits (nat (- i)) else digits (nat i))"

datatype num_error = ErrSyntax | ErrRange

fun parse_uint :: "int \<Rightarrow> string \<Rightarrow> num_error + int" where
  "parse_uint n [] = Inr n"
| "parse_uint n (c # cs) =
     (case digit_val c of
        None \<Rightarrow> Inl ErrSyntax
      | Some d \<Rightarrow> (if n * 10 + int d \<ge> 2 ^ 64 then Inl ErrRange else parse_uint (n * 10 + int d) cs))"

definition Atoi :: "string \<Rightarrow> num_error + int" where
  "Atoi s =
     (case s of
        [] \<Rightarrow> Inl ErrSyntax
      | c # cs \<Rightarrow>
          (let neg = (c = CHR ''-'');
               body = (if c = CHR ''-'' \<or> c = CHR ''+'' then cs else s)
           in if body = [] then Inl ErrSyntax
              else (case parse_uint 0 body of
                      Inl e \<Rightarrow> Inl e
                    | Inr un \<Rightarrow>
                        (if \<not> neg \<and> un \<ge> 2 ^ 63 then Inl ErrRange
                         else if neg \<and> un > 2 ^ 63 then Inl ErrRange
                         else Inr (if neg then - un else un)))))"

lemma digit_val_digit_char [simp]: "d < 10 \<Longrightarrow> digit_val (digit_char d) = Some d"
  by (simp add: digit_val_def digit_char_def)

lemma digit_val_less: "digit_val c = Some d \<Longrightarrow> d < 10"
  by (auto simp: digit_val_def Let_def split: if_splits)

lemma digits_not_Nil [simp]: "digits n \<noteq> []"
  by (subst digits.simps) simp

lemma digits_chars: "c \<in> set (digits n) \<Longrightarrow> \<exists>d < 10. c = digit_char d"
proof (induction n rule: digits.induct)
  case (1 n)
  then show ?case
    by (cases "n < 10") (auto simp: digits.simps [of n] intro: exI [of _ "n mod 10"])
qed

definition is_digit :: "char \<Rightarrow> bool" where
  "is_digit c \<longleftrightarrow> digit_val c \<noteq> None"

lemma digits_is_digit: "c \<in> set (digits n) \<Longrightarrow> is_digit c"
  by (auto dest: digits_chars simp: is_digit_def)

lemma parse_uint_snoc:
  "parse_uint n cs = Inr m \<Longrightarrow> d < 10 \<Longrightarrow> m * 10 + int d < 2 ^ 64 \<Longrightarrow>
   parse_uint n (cs @ [digit_char d]) = Inr (m * 10 + int d)"
  by (induction n cs rule: parse_uint.induct) (auto split: option.splits if_splits)

lemma parse_uint_digits: "n < 2 ^ 64 \<Longrightarrow> parse_uint 0 (digits n) = Inr (int n)"
proof (induction n rule: digits.induct)
  case (1 n)
  show ?case
  proof (cases "n < 10")
    case True
    then show ?thesis by (simp add: digits.simps [of n])
  next
    case False
    have "n div 10 < 2 ^ 64" using "1.prems" by linarith
    with 1 False have "parse_uint 0 (digits (n div 10)) = Inr (int (n div 10))" by simp
    moreover have eq: "int (n div 10) * 10 + int (n mod 10) = int n" by presburger
    moreover have "int n < 2 ^ 64" using "1.prems" by simp
    ultimately have "parse_uint 0 (digits (n div 10) @ [digit_char (n mod 10)])
        = Inr (int (n div 10) * 10 + int (n mod 10))"
      by (intro parse_uint_snoc) (simp_all only: eq mod_less_divisor)
    then show ?thesis using False by (simp only: digits.simps [of n] if_False eq)
  qed
qed

lemma hd_digits: "hd (digits n) \<noteq> CHR ''-'' \<and> hd (digits n) \<noteq> CHR ''+''"
proof -
  have "hd (digits n) \<in> set (digits n)" by simp
  then obtain d where "d < 10" and d: "hd (digits n) = digit_char d"
    by (blast dest: digits_chars)
  then have "digit_val (hd (digits n)) = Some d" by simp
  then show ?thesis by (auto simp: digit_val_def)
qed

lemma Atoi_digits: "n < 2 ^ 63 \<Longrightarrow> Atoi (digits n) = Inr (int n)"
  using hd_digits [of n] parse_uint_digits [of n]
  by (cases "digits n") (auto simp: Atoi_def Let_def simp del: parse_uint.simps)

lemma Atoi_neg_digits: "n \<le> 2 ^ 63 \<Longrightarrow> Atoi (CHR ''-'' # digits n) = Inr (- int n)"
  using parse_uint_digits [of n] by (simp add: Atoi_def Let_def)

lemma Atoi_Itoa:
  assumes "int64_range i"
  shows "Atoi (Itoa i) = Inr i"
proof (cases "i < 0")
  case True
  with assms have "nat (- i) \<le> 2 ^ 63" by auto
  from Atoi_neg_digits [OF this] True show ?thesis by (simp add: Itoa_def)
next
  case False
  with assms have "nat i < 2 ^ 63" by auto
  from Atoi_digits [OF this] False show ?thesis by (simp add: Itoa_def)
qed

lemma parse_uint_nonneg: "parse_uint n s = Inr i \<Longrightarrow> 0 \<le> n \<Longrightarrow> 0 \<le> i"
  by (induction n s rule: parse_uint.induct) (auto split: option.splits if_splits)

lemma Atoi_range: "Atoi s = Inr i \<Longrightarrow> int64_range i"
  by (auto simp: Atoi_def Let_def simp del: parse_uint.simps dest!: parse_uint_nonneg
      split: list.splits sum.splits if_splits)

lemma Itoa_nat: "Itoa (int n) = digits n"
  by (simp add: Itoa_def)

end
