(* ===== verification/GoTime.thy ===== *)
theory GoTime
  imports GoStrings "HOL-Library.Monad_Syntax"
begin

text \<open>
  The part of Go's \<open>time\<close> package behind the pagination cursor: an instant is printed with
  \<open>Time.Format(time.RFC3339)\<close> (in UTC, whole seconds) and read back with
  \<open>time.Parse(time.RFC3339, s)\<close>, which also takes a fraction of a second and a zone offset.
  The main result is the round trip: printing and reading an instant truncates it to the second.
\<close>

section \<open>The civil calendar\<close>

definition leap :: "int \<Rightarrow> bool" where
  "leap y \<longleftrightarrow> y mod 4 = 0 \<and> (y mod 100 \<noteq> 0 \<or> y mod 400 = 0)"

definition days_in :: "int \<Rightarrow> int \<Rightarrow> int" where
  "days_in m y =
     (if m = 2 then (if leap y then 29 else 28)
      else if m \<in> {4, 6, 9, 11} then 30 else 31)"

text \<open>
  Days since 1970-01-01, counting years from March so that the leap day is the last day of the
  year; 400 such years are 146097 days.
\<close>

definition days_from_civil :: "int \<Rightarrow> int \<Rightarrow> int \<Rightarrow> int" where
  "days_from_civil y m d =
     (let y' = (if m \<le> 2 then y - 1 else y);
          yoe = y' mod 400;
          doy = (153 * ((m + 9) mod 12) + 2) div 5 + d - 1
      in y' div 400 * 146097 + 365 * yoe + yoe div 4 - yoe div 100 + doy - 719468)"

definition year_day :: "int \<Rightarrow> int \<times> int" where
  \<comment> \<open>from the day of a 400-year era to the March-based year of the era and the day of that year\<close>
  "year_day doe =
     (let c = min 3 (doe div 36524); r = doe - c * 36524;
          q = r div 1461; s = r - q * 1461;
          n = min 3 (s div 365)
      in (100 * c + 4 * q + n, s - 365 * n))"

definition civil_from_days :: "int \<Rightarrow> int \<times> int \<times> int" where
  "civil_from_days z =
     (let z' = z + 719468; era = z' div 146097; (yoe, doy) = year_day (z' mod 146097);
          mp = (5 * doy + 2) div 153;
          d = doy - (153 * mp + 2) div 5 + 1;
          m = (if mp < 10 then mp + 3 else mp - 9)
      in (yoe + era * 400 + (if m \<le> 2 then 1 else 0), m, d))"

lemma year_day_props:
  assumes "0 \<le> doe" "doe < 146097" and yd: "year_day doe = (yoe, doy)"
  shows "0 \<le> yoe" and "yoe < 400" and "0 \<le> doy" and "doy \<le> 365"
    and "365 * yoe + yoe div 4 - yoe div 100 + doy = doe"
    and "doy = 365 \<Longrightarrow> leap (yoe + 1)"
proof -
  define c where "c = min 3 (doe div 36524)"
  define r where "r = doe - c * 36524"
  define q where "q = r div 1461"
  define s where "s = r - q * 1461"
  define n where "n = min 3 (s div 365)"
  have yoe: "yoe = 100 * c + 4 * q + n" and doy: "doy = s - 365 * n"
    using yd by (auto simp: year_day_def Let_def c_def r_def q_def s_def n_def)
  have c: "0 \<le> c" "c \<le> 3" and r: "0 \<le> r" "r \<le> 36524" and r3: "c < 3 \<Longrightarrow> r < 36524"
    using assms(1,2) by (auto simp: c_def r_def min_def)
  have q: "0 \<le> q" "q \<le> 24" using r by (auto simp: q_def)
  have s: "0 \<le> s" "s \<le> 1460" using r by (auto simp: s_def q_def)
  have n: "0 \<le> n" "n \<le> 3" and d: "0 \<le> doy" "doy \<le> 365" and d3: "n < 3 \<Longrightarrow> doy < 365"
    using s by (auto simp: n_def doy min_def)
  have y4: "yoe div 4 = 25 * c + q" and y100: "yoe div 100 = c"
    using n q by (auto simp: yoe)
  show "0 \<le> yoe" "yoe < 400" using c q n by (auto simp: yoe)
  show "0 \<le> doy" "doy \<le> 365" by (fact d)+
  show "365 * yoe + yoe div 4 - yoe div 100 + doy = doe"
    by (simp add: y4 y100) (simp add: yoe doy s_def r_def)
  show "leap (yoe + 1)" if "doy = 365"
  proof -
    have n3: "n = 3" using that d3 n by linarith
    with that have s1460: "s = 1460" by (simp add: doy)
    have "c = 3" if "q = 24"
      using that s1460 r3 c by (cases "c < 3") (auto simp: s_def)
    moreover have e: "yoe + 1 = 100 * c + 4 * q + 4" by (simp add: yoe n3)
    then have "(yoe + 1) mod 4 = 0" by presburger
    moreover have "(yoe + 1) mod 100 \<noteq> 0" if "q \<noteq> 24"
    proof -
      have "yoe + 1 = (4 * q + 4) + c * 100" using e by linarith
      then have "(yoe + 1) mod 100 = (4 * q + 4) mod 100" by (simp only: mod_mult_self1)
      moreover have "4 * q + 4 < 100" using that q by linarith
      ultimately show ?thesis using q by simp
    qed
    moreover have "yoe + 1 = 400" if "q = 24"
      using e that \<open>q = 24 \<Longrightarrow> c = 3\<close> by simp
    ultimately show ?thesis
      unfolding leap_def by (cases "q = 24") simp_all
  qed
qed

lemma leap_era: "leap (x + e * 400) \<longleftrightarrow> leap x"
proof -
  have "(x + e * 400) mod 4 = x mod 4"
    using mod_mult_self1 [of x "e * 100" 4] by (simp add: mult.commute)
  moreover have "(x + e * 400) mod 100 = x mod 100"
    using mod_mult_self1 [of x "e * 4" 100] by (simp add: mult.commute)
  moreover have "(x + e * 400) mod 400 = x mod 400" by simp
  ultimately show ?thesis by (simp only: leap_def)
qed

lemma civil_from_days_valid:
  assumes "civil_from_days z = (y, m, d)"
  shows "1 \<le> m" and "m \<le> 12" and "1 \<le> d" and "d \<le> days_in m y"
    and "days_from_civil y m d = z"
proof -
  define z' where "z' = z + 719468"
  define era where "era = z' div 146097"
  obtain yoe doy where yd: "year_day (z' mod 146097) = (yoe, doy)" by fastforce
  define mp where "mp = (5 * doy + 2) div 153"
  have m: "m = (if mp < 10 then mp + 3 else mp - 9)"
    and d: "d = doy - (153 * mp + 2) div 5 + 1"
    and y: "y = yoe + era * 400 + (if m \<le> 2 then 1 else 0)"
    using assms yd by (auto simp: civil_from_days_def Let_def z'_def era_def mp_def)
  note props = year_day_props [OF _ _ yd]
  have doy: "0 \<le> doy" "doy \<le> 365" and yoe: "0 \<le> yoe" "yoe < 400"
    and sum: "365 * yoe + yoe div 4 - yoe div 100 + doy = z' mod 146097"
    and lp: "doy = 365 \<Longrightarrow> leap (yoe + 1)"
    using props by simp_all
  have mp: "0 \<le> mp" "mp \<le> 11" using doy by (auto simp: mp_def)
  then show "1 \<le> m" "m \<le> 12" by (auto simp: m)
  have "153 * mp \<le> 5 * doy + 2" by (simp add: mp_def)
  then show "1 \<le> d" by (simp add: d)
  have mpy: "5 * doy + 2 < 153 * mp + 153" by (simp add: mp_def)
  have leap_y: "leap y \<longleftrightarrow> leap (yoe + 1)" if "m \<le> 2"
    using that leap_era [of "yoe + 1" era] by (simp add: y ac_simps)
  show "d \<le> days_in m y"
  proof (cases "mp = 11")
    case True
    then have "m = 2" and dd: "d = doy - 336" by (simp_all add: m d)
    with leap_y lp have "doy = 365 \<Longrightarrow> days_in m y = 29" by (simp add: days_in_def)
    moreover have "28 \<le> days_in m y" by (simp add: days_in_def)
    ultimately show ?thesis using doy dd by (cases "doy = 365") linarith+
  next
    case False
    with mp have "mp = 0 \<or> mp = 1 \<or> mp = 2 \<or> mp = 3 \<or> mp = 4 \<or> mp = 5 \<or> mp = 6
      \<or> mp = 7 \<or> mp = 8 \<or> mp = 9 \<or> mp = 10" by presburger
    then show ?thesis using mpy unfolding m d days_in_def by (elim disjE) simp_all
  qed
  have "(m + 9) mod 12 = mp" using mp by (auto simp: m)
  moreover have "(if m \<le> 2 then y - 1 else y) = yoe + era * 400" by (simp add: y)
  ultimately have "days_from_civil y m d
      = era * 146097 + 365 * yoe + yoe div 4 - yoe div 100 + doy - 719468"
    unfolding days_from_civil_def Let_def d using yoe by simp
  moreover have "era * 146097 + z' mod 146097 = z'"
    unfolding era_def by (rule div_mult_mod_eq)
  ultimately show "days_from_civil y m d = z"
    using sum unfolding z'_def by linarith
qed

section \<open>Printing and reading RFC 3339\<close>

definition zpad :: "nat \<Rightarrow> string \<Rightarrow> string" where
  "zpad w s = replicate (w - length s) (CHR ''0'') @ s"

definition fmt_int :: "nat \<Rightarrow> int \<Rightarrow> string" where
  "fmt_int w i = (if i < 0 then CHR ''-'' # zpad w (digits (nat (- i))) else zpad w (digits (nat i)))"

definition format_RFC3339 :: "nanos \<Rightarrow> string" where
  "format_RFC3339 t =
     (let secs = t div Second; sod = secs mod 86400; (y, m, d) = civil_from_days (secs div 86400)
      in fmt_int 4 y @ ''-'' @ fmt_int 2 m @ ''-'' @ fmt_int 2 d @ ''T'' @
         fmt_int 2 (sod div 3600) @ '':'' @ fmt_int 2 (sod mod 3600 div 60) @ '':'' @
         fmt_int 2 (sod mod 60) @ ''Z'')"

fun getnum :: "bool \<Rightarrow> string \<Rightarrow> (int \<times> string) option" where
  "getnum fixd [] = None"
| "getnum fixd [c] =
     (case digit_val c of None \<Rightarrow> None | Some a \<Rightarrow> if fixd then None else Some (int a, []))"
| "getnum fixd (c # e # cs) =
     (case digit_val c of
        None \<Rightarrow> None
      | Some a \<Rightarrow> (case digit_val e of
          None \<Rightarrow> if fixd then None else Some (int a, e # cs)
        | Some b \<Rightarrow> Some (int (a * 10 + b), cs)))"

definition getyear :: "string \<Rightarrow> (int \<times> string) option" where
  "getyear s = do {
     (a, s) \<leftarrow> getnum True s;
     (b, s) \<leftarrow> getnum True s;
     Some (a * 100 + b, s) }"

definition expect :: "char \<Rightarrow> string \<Rightarrow> string option" where
  "expect c s = (case s of [] \<Rightarrow> None | x # xs \<Rightarrow> if x = c then Some xs else None)"

definition guard :: "bool \<Rightarrow> unit option" where
  "guard b = (if b then Some () else None)"

definition digits_value :: "string \<Rightarrow> nat" where
  "digits_value = foldl (\<lambda>n c. n * 10 + (case digit_val c of None \<Rightarrow> 0 | Some d \<Rightarrow> d)) 0"

definition parse_frac :: "string \<Rightarrow> int \<times> string" where
  "parse_frac s =
     (case s of
        p # c # cs \<Rightarrow>
          (if (p = CHR ''.'' \<or> p = CHR '','') \<and> is_digit c
           then (let ds = take 9 (takeWhile is_digit (c # cs))
                 in (int (digits_value ds * 10 ^ (9 - length ds)), dropWhile is_digit (c # cs)))
           else (0, s))
      | _ \<Rightarrow> (0, s))"

definition parse_zone :: "string \<Rightarrow> (int \<times> string) option" where
  \<comment> \<open>offset in seconds east of UTC; the range test of the hour and the minute is \<open>>\<close>, as in Go\<close>
  "parse_zone s =
     (case s of
        [] \<Rightarrow> None
      | c # cs \<Rightarrow>
          (if c = CHR ''Z'' then Some (0, cs)
           else do {
             (hr, s) \<leftarrow> getnum True cs;
             s \<leftarrow> expect (CHR '':'') s;
             (mm, s) \<leftarrow> getnum True s;
             guard (hr \<le> 24 \<and> mm \<le> 60);
             (if c = CHR ''+'' then Some ((hr * 60 + mm) * 60, s)
              else if c = CHR ''-'' then Some (- ((hr * 60 + mm) * 60), s)
              else None) }))"

definition parse_RFC3339 :: "string \<Rightarrow> nanos option" where
  "parse_RFC3339 s = do {
     (y, s) \<leftarrow> getyear s;
     s \<leftarrow> expect (CHR ''-'') s;
     (mo, s) \<leftarrow> getnum True s;
     guard (1 \<le> mo \<and> mo \<le> 12);
     s \<leftarrow> expect (CHR ''-'') s;
     (d, s) \<leftarrow> getnum True s;
     s \<leftarrow> expect (CHR ''T'') s;
     (h, s) \<leftarrow> getnum False s;
     guard (h < 24);
     s \<leftarrow> expect (CHR '':'') s;
     (mi, s) \<leftarrow> getnum True s;
     guard (mi < 60);
     s \<leftarrow> expect (CHR '':'') s;
     (sec, s) \<leftarrow> getnum True s;
     guard (sec < 60);
     let (ns, s) = parse_frac s;
     (off, s) \<leftarrow> parse_zone s;
     guard (s = []);
     guard (1 \<le> d \<and> d \<le> days_in mo y);
     Some ((days_from_civil y mo d * 86400 + h * 3600 + mi * 60 + sec - off) * Second + ns) }"

lemma digits_small: "n < 10 \<Longrightarrow> digits n = [digit_char n]"
  by (simp add: digits.simps [of n])

lemma digits_step: "10 \<le> n \<Longrightarrow> digits n = digits (n div 10) @ [digit_char (n mod 10)]"
  by (simp add: digits.simps [of n])

lemma digit_char_0: "digit_char 0 = CHR ''0''"
  by code_simp

lemma fmt_int_2:
  assumes "0 \<le> i" "i < 100"
  shows "fmt_int 2 i = [digit_char (nat i div 10), digit_char (nat i mod 10)]"
proof (cases "nat i < 10")
  case True
  then show ?thesis using assms by (simp add: fmt_int_def zpad_def digits_small digit_char_0)
next
  case False
  with assms have "nat i div 10 < 10" by linarith
  with False assms show ?thesis
    by (simp add: fmt_int_def zpad_def digits_small digits_step)
qed

lemma fmt_int_4:
  assumes "0 \<le> i" "i < 10000"
  shows "fmt_int 4 i = fmt_int 2 (i div 100) @ fmt_int 2 (i mod 100)"
proof -
  define n where "n = nat i"
  have i: "i = int n" and n: "n < 10000" using assms by (auto simp: n_def)
  have 2: "fmt_int 2 (int k) = [digit_char (k div 10), digit_char (k mod 10)]" if "k < 100" for k
    using fmt_int_2 [of "int k"] that by simp
  have "fmt_int 4 i = [digit_char (n div 1000), digit_char (n div 100 mod 10),
      digit_char (n div 10 mod 10), digit_char (n mod 10)]"
  proof -
    consider "n < 10" | "10 \<le> n" "n < 100" | "100 \<le> n" "n < 1000" | "1000 \<le> n" by linarith
    then show ?thesis
    proof cases
      case 1
      then show ?thesis
        by (simp add: i fmt_int_def zpad_def digits_small digit_char_0 numeral_3_eq_3)
    next
      case 2
      then have "n div 10 < 10" "n div 1000 = 0" "n div 100 = 0" by linarith+
      with 2 show ?thesis
        by (simp add: i fmt_int_def zpad_def digits_small digits_step digit_char_0 numeral_2_eq_2)
    next
      case 3
      then have "n div 10 div 10 < 10" "\<not> n div 10 < 10" "n div 1000 = 0" "n div 100 < 10" by linarith+
      with 3 show ?thesis
        by (simp add: i fmt_int_def zpad_def digits_small digits_step digit_char_0 div_mult2_eq [symmetric])
    next
      case 4
      then have "n div 10 div 10 div 10 < 10" "\<not> n div 10 < 10" "\<not> n div 10 div 10 < 10"
        using n by linarith+
      with 4 show ?thesis
        by (simp add: i fmt_int_def zpad_def digits_small digits_step digit_char_0 div_mult2_eq [symmetric])
    qed
  qed
  moreover have "i div 100 = int (n div 100)" "i mod 100 = int (n mod 100)"
    by (simp_all add: i zdiv_int zmod_int)
  moreover have "n div 100 < 100" using n by linarith
  moreover have "n mod 100 div 10 = n div 10 mod 10" "n mod 100 mod 10 = n mod 10"
    using mod_mult2_eq [of n 10 10] by simp_all
  ultimately show ?thesis by (simp add: 2 div_mult2_eq [symmetric])
qed

lemma getnum_fmt_int [simp]:
  assumes "0 \<le> i" "i < 100"
  shows "getnum f (fmt_int 2 i @ s) = Some (i, s)"
proof -
  have "nat i div 10 < 10" using assms by linarith
  then show ?thesis using assms by (simp add: fmt_int_2)
qed

lemma getyear_fmt_int [simp]:
  assumes "0 \<le> i" "i < 10000"
  shows "getyear (fmt_int 4 i @ s) = Some (i, s)"
proof -
  have "i div 100 < 100" using assms by linarith
  then show ?thesis using assms by (simp add: getyear_def fmt_int_4 mult.commute)
qed

lemma expect_Cons [simp]: "expect c (c # s) = Some s"
  by (simp add: expect_def)

lemma guard_True [simp]: "guard True = Some ()"
  by (simp add: guard_def)

definition year_of :: "nanos \<Rightarrow> int" where
  "year_of t = fst (civil_from_days (t div Second div 86400))"

text \<open>\<open>RFC3339Nano\<close>: the fraction without its trailing zeros, nothing if it is zero.\<close>

definition format_frac :: "nat \<Rightarrow> string" where
  "format_frac ns =
     (if ns = 0 then [] else CHR ''.'' # rev (dropWhile (\<lambda>c. c = CHR ''0'') (rev (zpad 9 (digits ns)))))"

definition format_RFC3339Nano :: "nanos \<Rightarrow> string" where
  "format_RFC3339Nano t = butlast (format_RFC3339 t) @ format_frac (nat (t mod Second)) @ ''Z''"

lemma parse_civil:
  assumes "0 \<le> y" "y < 10000" "1 \<le> m" "m \<le> 12" "1 \<le> d" "d \<le> days_in m y"
    and "0 \<le> h" "h < 24" "0 \<le> mi" "mi < 60" "0 \<le> sec" "sec < 60"
    and "parse_frac (fr @ ''Z'') = (ns, ''Z'')"
  shows "parse_RFC3339 (fmt_int 4 y @ ''-'' @ fmt_int 2 m @ ''-'' @ fmt_int 2 d @ ''T'' @
           fmt_int 2 h @ '':'' @ fmt_int 2 mi @ '':'' @ fmt_int 2 sec @ fr @ ''Z'')
         = Some ((days_from_civil y m d * 86400 + h * 3600 + mi * 60 + sec) * Second + ns)"
proof -
  have "days_in m y \<le> 31" by (simp add: days_in_def)
  with assms have "d < 100" by linarith
  with assms show ?thesis
    by (simp add: parse_RFC3339_def parse_zone_def)
qed

lemma parse_format_frac:
  assumes "0 \<le> year_of t" "year_of t < 10000" "parse_frac (fr @ ''Z'') = (ns, ''Z'')"
  shows "parse_RFC3339 (butlast (format_RFC3339 t) @ fr @ ''Z'') = Some (t div Second * Second + ns)"
proof -
  define secs where "secs = t div Second"
  define sod where "sod = secs mod 86400"
  obtain y m d where civ: "civil_from_days (secs div 86400) = (y, m, d)"
    by (metis surj_pair)
  have y: "0 \<le> y" "y < 10000" using assms civ by (simp_all add: year_of_def secs_def)
  note valid = civil_from_days_valid [OF civ]
  have sod: "0 \<le> sod" "sod < 86400" by (simp_all add: sod_def)
  then have h: "0 \<le> sod div 3600" "sod div 3600 < 24" by auto
  have mi: "0 \<le> sod mod 3600 div 60" "sod mod 3600 div 60 < 60" by auto
  have sec: "0 \<le> sod mod 60" "sod mod 60 < 60" by simp_all
  have "sod div 3600 * 3600 + sod mod 3600 div 60 * 60 + sod mod 60 = sod"
  proof -
    have "sod mod 60 = sod mod 3600 mod 60" by (simp add: mod_mod_cancel)
    then show ?thesis using div_mult_mod_eq [of "sod mod 3600" 60] div_mult_mod_eq [of sod 3600]
      by linarith
  qed
  then have total: "days_from_civil y m d * 86400 + sod div 3600 * 3600 + sod mod 3600 div 60 * 60
      + sod mod 60 = secs"
  proof -
    have "secs div 86400 * 86400 + sod = secs" by (simp add: sod_def)
    with \<open>_ = sod\<close> show ?thesis using valid(5) by linarith
  qed
  have "butlast (format_RFC3339 t) = fmt_int 4 y @ ''-'' @ fmt_int 2 m @ ''-'' @ fmt_int 2 d @ ''T'' @
         fmt_int 2 (sod div 3600) @ '':'' @ fmt_int 2 (sod mod 3600 div 60) @ '':'' @ fmt_int 2 (sod mod 60)"
    using civ by (simp add: format_RFC3339_def Let_def secs_def sod_def butlast_append)
  then have "parse_RFC3339 (butlast (format_RFC3339 t) @ fr @ ''Z'') = Some (secs * Second + ns)"
    using parse_civil [OF y valid(1-4) h mi sec assms(3)] total by simp
  then show ?thesis by (simp only: secs_def)
qed

text \<open>What \<open>encoding/json\<close> accepts to write of a time.\<close>

definition year_ok :: "nanos \<Rightarrow> bool" where
  "year_ok t \<longleftrightarrow> 0 \<le> year_of t \<and> year_of t < 10000"

lemma format_RFC3339_Z: "format_RFC3339 t = butlast (format_RFC3339 t) @ ''Z''"
  by (simp add: format_RFC3339_def Let_def butlast_append split: prod.split)

lemma parse_format_RFC3339:
  assumes "0 \<le> year_of t" "year_of t < 10000"
  shows "parse_RFC3339 (format_RFC3339 t) = Some (t div Second * Second)"
  using parse_format_frac [OF assms, of "[]" 0] format_RFC3339_Z [of t] by (simp add: parse_frac_def)

lemma digits_value_snoc: "d < 10 \<Longrightarrow> digits_value (s @ [digit_char d]) = digits_value s * 10 + d"
  by (simp add: digits_value_def)

lemma digits_value_digits: "digits_value (digits n) = n"
proof (induction n rule: digits.induct)
  case (1 n)
  show ?case
  proof (cases "n < 10")
    case True
    then show ?thesis by (simp add: digits_small digits_value_def)
  next
    case False
    have "digits_value (digits n) = digits_value (digits (n div 10)) * 10 + n mod 10"
      using False by (simp add: digits_step digits_value_snoc)
    then show ?thesis using 1 False by simp
  qed
qed

lemma digits_value_zeros:
  "digits_value (replicate k (CHR ''0'') @ s) = digits_value s"
  "digits_value (s @ replicate k (CHR ''0'')) = digits_value s * 10 ^ k"
proof -
  have 0: "digit_val (CHR ''0'') = Some 0" by (simp add: digit_val_def)
  show "digits_value (replicate k (CHR ''0'') @ s) = digits_value s"
    by (induction k) (simp_all add: digits_value_def 0)
  show "digits_value (s @ replicate k (CHR ''0'')) = digits_value s * 10 ^ k"
    by (induction k) (simp_all add: digits_value_def 0 flip: replicate_append_same)
qed

lemma digits_length: "n < 10 ^ Suc k \<Longrightarrow> length (digits n) \<le> Suc k"
proof (induction k arbitrary: n)
  case 0
  then show ?case by (simp add: digits.simps)
next
  case (Suc k)
  have "n div 10 < 10 ^ Suc k" using Suc.prems by (simp add: div_less_iff_less_mult ac_simps)
  then show ?case using Suc.IH by (subst digits.simps) simp
qed

lemma parse_format_fraction:
  assumes "ns < 1000000000"
  shows "parse_frac (format_frac ns @ ''Z'') = (int ns, ''Z'')"
proof (cases "ns = 0")
  case False
  define p where "p = zpad 9 (digits ns)"
  define q where "q = rev (dropWhile (\<lambda>c. c = CHR ''0'') (rev p))"
  have len: "length p = 9" using digits_length [of ns 8] assms by (simp add: p_def zpad_def)
  have val: "digits_value p = ns" by (simp add: p_def zpad_def digits_value_zeros(1) digits_value_digits)
  define z where "z = takeWhile (\<lambda>c. c = CHR ''0'') (rev p)"
  have "\<forall>c \<in> set z. c = CHR ''0''" by (auto simp: z_def dest: set_takeWhileD)
  then have "z = replicate (length z) (CHR ''0'')" using replicate_length_same [of z "CHR ''0''"] by simp
  moreover have "p = q @ rev z"
    using takeWhile_dropWhile_id [of "\<lambda>c. c = CHR ''0''" "rev p"] by (metis q_def rev_append rev_rev_ident z_def)
  ultimately obtain k where p: "p = q @ replicate k (CHR ''0'')" by (metis rev_replicate)
  have "q \<noteq> []" using val False p digits_value_zeros(2) [of "[]" k] by (auto simp: digits_value_def)
  moreover have digs: "\<forall>c \<in> set q. is_digit c"
  proof -
    have "\<forall>c \<in> set p. is_digit c" by (auto simp: p_def zpad_def digits_is_digit) (simp add: is_digit_def digit_val_def)
    then show ?thesis by (simp add: p)
  qed
  moreover have "length q + k = 9" using len p by simp
  moreover have "takeWhile is_digit (q @ ''Z'') = q" "dropWhile is_digit (q @ ''Z'') = ''Z''"
    using digs by (simp_all add: takeWhile_append2 dropWhile_append2 is_digit_def digit_val_def)
  ultimately have "parse_frac (CHR ''.'' # q @ ''Z'') = (int (digits_value q * 10 ^ k), ''Z'')"
    by (cases q) (auto simp: parse_frac_def)
  moreover have "format_frac ns = CHR ''.'' # q" using False by (simp add: format_frac_def q_def p_def)
  moreover have "digits_value q * 10 ^ k = ns" using val p digits_value_zeros(2) [of q k] by simp
  ultimately show ?thesis by simp
qed (simp add: format_frac_def parse_frac_def)

lemma parse_format_RFC3339Nano:
  assumes "year_ok t"
  shows "parse_RFC3339 (format_RFC3339Nano t) = Some t"
proof -
  have "nat (t mod Second) < 1000000000" "int (nat (t mod Second)) = t mod Second"
    using pos_mod_bound [of Second t] by simp_all
  then show ?thesis
    using parse_format_frac [OF _ _ parse_format_fraction] assms div_mult_mod_eq [of t Second]
    by (simp add: format_RFC3339Nano_def year_ok_def)
qed

end
