(* ===== verification/PacketQuery.thy ===== *)
theory PacketQuery
  imports GoTime
begin

text \<open>
  The request side of \<open>go-sniffer/internal/api/packets.go\<close>: the tables of valid fields and
  operators, the parsing and validation of the URL parameters of \<open>GET /packets\<close>, and the
  construction of the SQL text with its numbered arguments. A reader for the fragment of SQL
  that the builder emits gives the text a meaning of its own; the main lemma is that reading
  the built text and binding the arguments gives back exactly the validated request.
\<close>

section \<open>Valid columns, fields and operators\<close>

definition defaultColumns :: "string list" where
  "defaultColumns =
     [''time'', ''src_ip'', ''dst_ip'', ''src_port'', ''dst_port'', ''protocol'', ''length'',
      ''tcp_flags'']"

definition validFields :: "string \<Rightarrow> bool" where
  "validFields f \<longleftrightarrow>
     f \<in> {''time'', ''src_ip'', ''dst_ip'', ''src_port'', ''dst_port'', ''protocol'', ''length'',
           ''tcp_flags'', ''job_id''}"

definition validExpressions :: "string \<rightharpoonup> string" where
  "validExpressions =
     [''eq'' \<mapsto> ''='', ''ne'' \<mapsto> ''!='', ''gt'' \<mapsto> ''>'', ''lt'' \<mapsto> ''<'', ''gte'' \<mapsto> ''>='',
      ''lte'' \<mapsto> ''<='']"

section \<open>Parsed requests and their errors\<close>

record Filter =
  FieldName :: string
  Operator :: string
  FValue :: string

record ListPacketsParams =
  Limit :: int
  Columns :: "string list"
  Cursor :: "nanos option"
  Order :: string
  Filters :: "Filter list"

datatype field_error = UnknownField string
datatype order_error = UnknownOrder string
datatype filter_error =
  InvalidFilterFormat string | UnknownFilterField string | UnknownFilterOperator string

datatype param_error =
  ErrInvalidLimit num_error | ErrLimitOutOfRange | ErrInvalidField field_error | ErrCursor
  | ErrOrder order_error | ErrFilter filter_error

definition resolveOrder :: "string \<Rightarrow> order_error + string" where
  "resolveOrder s =
     (if s = ''desc'' then Inr ''DESC''
      else if s = '''' \<or> s = ''asc'' then Inr ''ASC''
      else Inl (UnknownOrder s))"

fun resolveColumns_loop :: "string list \<Rightarrow> string list \<Rightarrow> field_error + string list" where
  "resolveColumns_loop validated [] = Inr validated"
| "resolveColumns_loop validated (f # fs) =
     (if \<not> validFields f then Inl (UnknownField f)
      else resolveColumns_loop (validated @ [f]) fs)"

definition resolveColumns :: "string list \<Rightarrow> field_error + string list" where
  "resolveColumns columnSlice =
     (if columnSlice = [] then Inr defaultColumns else resolveColumns_loop [] columnSlice)"

fun resolveFilters_loop :: "Filter list \<Rightarrow> string list \<Rightarrow> filter_error + Filter list" where
  "resolveFilters_loop filters [] = Inr filters"
| "resolveFilters_loop filters (f # fs) =
     (case SplitN (CHR '':'') 3 f of
        [field, op, value] \<Rightarrow>
          (if \<not> validFields field then Inl (UnknownFilterField field)
           else (case validExpressions op of
                   None \<Rightarrow> Inl (UnknownFilterOperator op)
                 | Some sqlOp \<Rightarrow>
                     resolveFilters_loop
                       (filters @ [\<lparr>FieldName = field, Operator = sqlOp, FValue = value\<rparr>]) fs))
      | _ \<Rightarrow> Inl (InvalidFilterFormat f))"

definition resolveFilters :: "string list \<Rightarrow> filter_error + Filter list" where
  "resolveFilters filterSlice = resolveFilters_loop [] filterSlice"

text \<open>\<open>url.Values\<close> with its \<open>Get\<close>: the first value of a key, or the empty string.\<close>

type_synonym url_values = "string \<Rightarrow> string list"

definition url_Get :: "url_values \<Rightarrow> string \<Rightarrow> string" where
  "url_Get q k = (case q k of [] \<Rightarrow> '''' | v # _ \<Rightarrow> v)"

definition parseListPacketsParams :: "url_values \<Rightarrow> param_error + ListPacketsParams" where
  "parseListPacketsParams q =
     (let limitStr = (if url_Get q ''limit'' = '''' then ''100'' else url_Get q ''limit'') in
      case Atoi limitStr of
        Inl e \<Rightarrow> Inl (ErrInvalidLimit e)
      | Inr limit \<Rightarrow>
          if limit > 100 \<or> limit < 1 then Inl ErrLimitOutOfRange
          else
            (let raw = url_Get q ''fields'';
                 columnSlice = (if raw \<noteq> '''' then Split (CHR '','') raw else []) in
             case resolveColumns columnSlice of
               Inl e \<Rightarrow> Inl (ErrInvalidField e)
             | Inr columns \<Rightarrow>
                 (let cursorStr = url_Get q ''cursor'' in
                  case (if cursorStr \<noteq> '''' then map_option Some (parse_RFC3339 cursorStr)
                        else Some None) of
                    None \<Rightarrow> Inl ErrCursor
                  | Some cursor \<Rightarrow>
                      (case resolveOrder (url_Get q ''order'') of
                         Inl e \<Rightarrow> Inl (ErrOrder e)
                       | Inr order \<Rightarrow>
                           (case resolveFilters (q ''filter'') of
                              Inl e \<Rightarrow> Inl (ErrFilter e)
                            | Inr filters \<Rightarrow>
                                Inr \<lparr>Limit = limit, Columns = columns, Cursor = cursor,
                                     Order = order, Filters = filters\<rparr>)))))"

section \<open>Building the query\<close>

datatype sql_arg = ArgTime nanos | ArgStr string | ArgInt int

definition placeholder :: "nat \<Rightarrow> string" where
  "placeholder n = CHR ''$'' # Itoa (int n)"

fun buildFilters ::
  "Filter list \<Rightarrow> string list \<times> sql_arg list \<times> nat \<Rightarrow> string list \<times> sql_arg list \<times> nat"
where
  "buildFilters [] st = st"
| "buildFilters (f # fs) (whereClauses, args, argIdx) =
     buildFilters fs
       (whereClauses @ [FieldName f @ '' '' @ Operator f @ '' '' @ placeholder argIdx],
        args @ [ArgStr (FValue f)], argIdx + 1)"

definition buildPacketQuery :: "ListPacketsParams \<Rightarrow> string \<times> sql_arg list" where
  "buildPacketQuery q =
     (let init = (case Cursor q of
                    None \<Rightarrow> ([], [], 1)
                  | Some c \<Rightarrow> ([''time > '' @ placeholder 1], [ArgTime c], 2));
          (whereClauses, args, argIdx) = buildFilters (Filters q) init;
          columnString = Join '', '' (Columns q);
          query =
            (if whereClauses \<noteq> [] then
               ''SELECT '' @ columnString @ '' FROM packet_logs WHERE '' @
               Join '' AND '' whereClauses @ '' ORDER BY time '' @ Order q @ '' LIMIT '' @
               placeholder argIdx
             else
               ''SELECT '' @ columnString @ '' FROM packet_logs ORDER BY time '' @ Order q @
               '' LIMIT '' @ placeholder argIdx)
      in (query, args @ [ArgInt (Limit q)]))"

section \<open>What the query text means\<close>

text \<open>
  A reader for the fragment of SQL the builder uses, independent of the builder: it cuts the text
  into words and recognises \<open>SELECT cols FROM packet_logs [WHERE f op $i AND ...] ORDER BY time d
  LIMIT $i\<close>; placeholders are then replaced by the arguments they number.
\<close>

record packet_select =
  sel_columns :: "string list"
  sel_where :: "(string \<times> string \<times> sql_arg) list"
  sel_order :: string
  sel_limit :: sql_arg

definition strip_comma :: "string \<Rightarrow> string option" where
  "strip_comma w = (if w \<noteq> [] \<and> last w = CHR '','' then Some (butlast w) else None)"

fun read_columns :: "string list \<Rightarrow> (string list \<times> string list) option" where
  "read_columns [] = None"
| "read_columns (w # ws) =
     (case strip_comma w of
        None \<Rightarrow> Some ([w], ws)
      | Some c \<Rightarrow> (case read_columns ws of
                     None \<Rightarrow> None
                   | Some (cs, rest) \<Rightarrow> Some (c # cs, rest)))"

definition read_placeholder :: "sql_arg list \<Rightarrow> string \<Rightarrow> sql_arg option" where
  "read_placeholder args w =
     (case w of
        [] \<Rightarrow> None
      | c # ds \<Rightarrow>
          (let i = digits_value ds in
           if c = CHR ''$'' \<and> ds \<noteq> [] \<and> list_all is_digit ds \<and> 1 \<le> i \<and> i \<le> length args
           then Some (args ! (i - 1)) else None))"

fun read_where ::
  "sql_arg list \<Rightarrow> string list \<Rightarrow> ((string \<times> string \<times> sql_arg) list \<times> string list) option"
where
  "read_where args (f # op # ph # rest) =
     (case read_placeholder args ph of
        None \<Rightarrow> None
      | Some a \<Rightarrow>
          (case rest of
             [] \<Rightarrow> Some ([(f, op, a)], [])
           | w # ws \<Rightarrow>
               (if w = ''AND'' then
                  (case read_where args ws of
                     None \<Rightarrow> None
                   | Some (cs, ws') \<Rightarrow> Some ((f, op, a) # cs, ws'))
                else Some ([(f, op, a)], w # ws))))"
| "read_where args ws = None"

definition read_tail ::
  "sql_arg list \<Rightarrow> string list \<Rightarrow> (string \<times> sql_arg) option"
where
  "read_tail args ws =
     (case ws of
        [o1, b, t, dir, l, ph] \<Rightarrow>
          (if o1 = ''ORDER'' \<and> b = ''BY'' \<and> t = ''time'' \<and> (dir = ''ASC'' \<or> dir = ''DESC'') \<and> l = ''LIMIT''
           then map_option (Pair dir) (read_placeholder args ph) else None)
      | _ \<Rightarrow> None)"

definition read_query :: "string \<Rightarrow> sql_arg list \<Rightarrow> packet_select option" where
  "read_query query args =
     (case Split (CHR '' '') query of
        w # ws \<Rightarrow>
          (if w \<noteq> ''SELECT'' then None
           else do {
             (cols, ws) \<leftarrow> read_columns ws;
             (case ws of
                f # p # rest \<Rightarrow>
                  (if f \<noteq> ''FROM'' \<or> p \<noteq> ''packet_logs'' then None
                   else do {
                     (conds, rest) \<leftarrow> (case rest of
                        [] \<Rightarrow> None
                      | k # ks \<Rightarrow> (if k = ''WHERE'' then read_where args ks else Some ([], rest)));
                     (dir, lim) \<leftarrow> read_tail args rest;
                     Some \<lparr>sel_columns = cols, sel_where = conds, sel_order = dir, sel_limit = lim\<rparr> })
              | _ \<Rightarrow> None) })
      | [] \<Rightarrow> None)"

text \<open>What a validated request asks for.\<close>

definition requested :: "ListPacketsParams \<Rightarrow> packet_select" where
  "requested q =
     \<lparr>sel_columns = Columns q,
      sel_where = (case Cursor q of None \<Rightarrow> [] | Some c \<Rightarrow> [(''time'', ''>'', ArgTime c)]) @
        map (\<lambda>f. (FieldName f, Operator f, ArgStr (FValue f))) (Filters q),
      sel_order = Order q,
      sel_limit = ArgInt (Limit q)\<rparr>"

definition well_formed_filter :: "Filter \<Rightarrow> bool" where
  "well_formed_filter f \<longleftrightarrow> validFields (FieldName f) \<and> Operator f \<in> ran validExpressions"

definition well_formed_params :: "ListPacketsParams \<Rightarrow> bool" where
  "well_formed_params q \<longleftrightarrow>
     1 \<le> Limit q \<and> Limit q \<le> 100 \<and> Columns q \<noteq> [] \<and> (\<forall>c \<in> set (Columns q). validFields c) \<and>
     Order q \<in> {''ASC'', ''DESC''} \<and> (\<forall>f \<in> set (Filters q). well_formed_filter f)"

section \<open>The parser\<close>

lemma resolveOrder_result: "resolveOrder s = Inr d \<Longrightarrow> d \<in> {''ASC'', ''DESC''}"
  by (auto simp: resolveOrder_def split: if_splits)

lemma resolveColumns_loop_eq:
  "resolveColumns_loop acc fs =
     (case find (\<lambda>f. \<not> validFields f) fs of None \<Rightarrow> Inr (acc @ fs) | Some f \<Rightarrow> Inl (UnknownField f))"
  by (induction acc fs rule: resolveColumns_loop.induct) (auto split: option.split)

lemma resolveColumns_loop_Inr:
  "resolveColumns_loop acc fs = Inr cs \<Longrightarrow> cs = acc @ fs \<and> (\<forall>f \<in> set fs. validFields f)"
  by (induction acc fs rule: resolveColumns_loop.induct) (auto split: if_splits)

lemma defaultColumns_valid: "c \<in> set defaultColumns \<Longrightarrow> validFields c"
  by (auto simp: defaultColumns_def validFields_def)

lemma resolveColumns_Inr:
  "resolveColumns s = Inr cs \<Longrightarrow>
   cs \<noteq> [] \<and> (\<forall>c \<in> set cs. validFields c) \<and> cs = (if s = [] then defaultColumns else s)"
  by (auto simp: resolveColumns_def defaultColumns_valid dest: resolveColumns_loop_Inr
      split: if_splits) (simp add: defaultColumns_def)

definition filter_of :: "string \<Rightarrow> Filter \<Rightarrow> bool" where
  \<comment> \<open>the text \<open>field:op:value\<close> stands for the filter\<close>
  "filter_of s f \<longleftrightarrow>
     (\<exists>op. s = FieldName f @ '':'' @ op @ '':'' @ FValue f \<and> validFields (FieldName f) \<and>
           validExpressions op = Some (Operator f))"

lemma resolveFilters_loop_Inr:
  "resolveFilters_loop acc ss = Inr fs \<Longrightarrow>
   \<exists>gs. fs = acc @ gs \<and> list_all2 filter_of ss gs"
proof (induction acc ss rule: resolveFilters_loop.induct)
  case (1 filters)
  then show ?case by simp
next
  case (2 filters s ss)
  from "2.prems" obtain field op v sqlOp where
    split: "SplitN (CHR '':'') 3 s = [field, op, v]" and
    valid: "validFields field" "validExpressions op = Some sqlOp" and
    rest: "resolveFilters_loop
      (filters @ [\<lparr>FieldName = field, Operator = sqlOp, FValue = v\<rparr>]) ss = Inr fs"
    by (auto split: list.splits option.splits if_splits)
  from "2.IH" [OF split refl refl refl _ valid(2) rest] valid obtain gs where
    "fs = (filters @ [\<lparr>FieldName = field, Operator = sqlOp, FValue = v\<rparr>]) @ gs"
    "list_all2 filter_of ss gs" by auto
  moreover have "filter_of s \<lparr>FieldName = field, Operator = sqlOp, FValue = v\<rparr>"
    using SplitN_threeD [OF split] valid by (auto simp: filter_of_def)
  ultimately show ?case by auto
qed

lemma resolveFilters_Inr: "resolveFilters ss = Inr fs \<Longrightarrow> list_all2 filter_of ss fs"
  unfolding resolveFilters_def by (drule resolveFilters_loop_Inr) auto

lemma filter_of_well_formed: "filter_of s f \<Longrightarrow> well_formed_filter f"
  by (auto simp: filter_of_def well_formed_filter_def ran_def)

lemma resolveFilters_well_formed:
  "resolveFilters ss = Inr fs \<Longrightarrow> \<forall>f \<in> set fs. well_formed_filter f"
  by (metis filter_of_well_formed in_set_conv_nth list_all2_conv_all_nth resolveFilters_Inr)

lemma parse_well_formed:
  assumes "parseListPacketsParams q = Inr p"
  shows "well_formed_params p"
  using assms
  by (auto simp: parseListPacketsParams_def well_formed_params_def Let_def
      split: sum.splits if_splits option.splits
      dest!: resolveColumns_Inr resolveOrder_result resolveFilters_well_formed)

section \<open>The built text means the request\<close>

fun clause_list :: "nat \<Rightarrow> (string \<times> string \<times> sql_arg) list \<Rightarrow> string list" where
  "clause_list n [] = []"
| "clause_list n ((f, op, a) # cs) =
     (f @ '' '' @ op @ '' '' @ placeholder n) # clause_list (Suc n) cs"

fun where_tokens :: "nat \<Rightarrow> (string \<times> string \<times> sql_arg) list \<Rightarrow> string list" where
  "where_tokens n [] = []"
| "where_tokens n [(f, op, a)] = [f, op, placeholder n]"
| "where_tokens n ((f, op, a) # c # cs) =
     f # op # placeholder n # ''AND'' # where_tokens (Suc n) (c # cs)"

fun column_tokens :: "string list \<Rightarrow> string list" where
  "column_tokens [] = []"
| "column_tokens [c] = [c]"
| "column_tokens (c # d # cs) = (c @ '','') # column_tokens (d # cs)"

abbreviation filter_cond :: "Filter \<Rightarrow> string \<times> string \<times> sql_arg" where
  "filter_cond f \<equiv> (FieldName f, Operator f, ArgStr (FValue f))"

lemma buildFilters_eq:
  "buildFilters fs (w, a, n) =
     (w @ clause_list n (map filter_cond fs), a @ map (\<lambda>f. ArgStr (FValue f)) fs, n + length fs)"
  by (induction fs arbitrary: w a n) auto

lemma where_tokens_eq_Nil [simp]: "where_tokens n cs = [] \<longleftrightarrow> cs = []"
  by (cases "(n, cs)" rule: where_tokens.cases) auto

lemma column_tokens_eq_Nil [simp]: "column_tokens cs = [] \<longleftrightarrow> cs = []"
  by (cases cs rule: column_tokens.cases) auto

lemma clause_list_eq_Nil [simp]: "clause_list n cs = [] \<longleftrightarrow> cs = []"
  by (cases "(n, cs)" rule: clause_list.cases) auto

lemma Join_where: "Join '' AND '' (clause_list n cs) = Join '' '' (where_tokens n cs)"
  by (induction n cs rule: where_tokens.induct) (auto simp: Join_Cons)

lemma Join_columns: "Join '', '' cs = Join '' '' (column_tokens cs)"
  by (induction cs rule: column_tokens.induct) (auto simp: Join_Cons)

definition query_tokens :: "ListPacketsParams \<Rightarrow> string list" where
  "query_tokens q =
     (let cs = sel_where (requested q) in
      ''SELECT'' # column_tokens (Columns q) @ [''FROM'', ''packet_logs''] @
      (if cs = [] then [] else ''WHERE'' # where_tokens 1 cs) @
      [''ORDER'', ''BY'', ''time'', Order q, ''LIMIT'', placeholder (Suc (length cs))])"

lemma buildPacketQuery_eq:
  assumes "Columns q \<noteq> []"
  shows "buildPacketQuery q =
    (Join '' '' (query_tokens q), map (snd \<circ> snd) (sel_where (requested q)) @ [ArgInt (Limit q)])"
proof (cases "Cursor q")
  case None
  with assms show ?thesis
    by (cases "Filters q = []")
      (auto simp: buildPacketQuery_def query_tokens_def requested_def buildFilters_eq Let_def
        Join_where Join_columns Join_append Join_Cons comp_def)
next
  case (Some c)
  have eq: "[''time > '' @ placeholder 1] @ clause_list 2 (map filter_cond (Filters q))
      = clause_list 1 ((''time'', ''>'', ArgTime c) # map filter_cond (Filters q))"
    by (simp add: numeral_2_eq_2)
  from assms Some show ?thesis
    unfolding buildPacketQuery_def buildFilters_eq Some option.case prod.case Let_def eq
    by (simp add: Some query_tokens_def requested_def Let_def Join_where Join_columns Join_append
        Join_Cons comp_def del: where_tokens.simps clause_list.simps)
qed

lemma validFields_chars:
  "validFields f \<Longrightarrow> f \<noteq> [] \<and> CHR '' '' \<notin> set f \<and> CHR '','' \<notin> set f \<and> f \<noteq> ''ORDER''"
  by (auto simp: validFields_def)

lemma validExpressions_chars: "op \<in> ran validExpressions \<Longrightarrow> CHR '' '' \<notin> set op"
  by (auto simp: validExpressions_def ran_def split: if_splits)

declare digits_value_digits [simp]

lemma placeholder_no_space: "CHR '' '' \<notin> set (placeholder n)"
proof -
  have "\<not> is_digit (CHR '' '')" by code_simp
  then show ?thesis by (auto simp: placeholder_def Itoa_nat dest: digits_is_digit)
qed

lemma read_placeholder_eq:
  "1 \<le> i \<Longrightarrow> i \<le> length args \<Longrightarrow> read_placeholder args (placeholder i) = Some (args ! (i - 1))"
  by (auto simp: read_placeholder_def placeholder_def Itoa_nat list_all_iff Let_def
      dest: digits_is_digit)

lemma read_where_tokens:
  assumes "cs \<noteq> []" and "rest = [] \<or> hd rest \<noteq> ''AND''"
    and "\<forall>i < length cs. n + i \<le> length args \<and> args ! (n + i - 1) = snd (snd (cs ! i))" and "1 \<le> n"
  shows "read_where args (where_tokens n cs @ rest) = Some (cs, rest)"
  using assms
proof (induction n cs rule: where_tokens.induct)
  case (1 n)
  then show ?case by simp
next
  case (2 n f op a)
  then show ?case by (cases rest) (auto simp: read_placeholder_eq)
next
  case (3 n f op a c cs)
  have "read_placeholder args (placeholder n) = Some a"
    using "3.prems"(3) [rule_format, of 0] "3.prems"(4) by (simp add: read_placeholder_eq)
  moreover have "\<forall>i < length (c # cs). Suc n + i \<le> length args \<and>
      args ! (Suc n + i - 1) = snd (snd ((c # cs) ! i))"
  proof (intro allI impI)
    fix i assume "i < length (c # cs)"
    then show "Suc n + i \<le> length args \<and> args ! (Suc n + i - 1) = snd (snd ((c # cs) ! i))"
      using "3.prems"(3) [rule_format, of "Suc i"] by simp
  qed
  ultimately show ?case using "3.IH" "3.prems"(2,4) by simp
qed

lemma read_column_tokens:
  assumes "cs \<noteq> []" and "\<forall>c \<in> set cs. c \<noteq> [] \<and> CHR '','' \<notin> set c"
  shows "read_columns (column_tokens cs @ rest) = Some (cs, rest)"
  using assms
proof (induction cs rule: column_tokens.induct)
  case 1
  then show ?case by simp
next
  case (2 c)
  then have "strip_comma c = None" by (auto simp: strip_comma_def dest: last_in_set)
  then show ?case by simp
next
  case (3 c d cs)
  then show ?case by (auto simp: strip_comma_def)
qed

lemma column_tokens_no_space:
  "\<forall>c \<in> set cs. CHR '' '' \<notin> set c \<Longrightarrow> t \<in> set (column_tokens cs) \<Longrightarrow> CHR '' '' \<notin> set t"
  by (induction cs rule: column_tokens.induct) auto

lemma where_tokens_no_space:
  "\<forall>(f, op, a) \<in> set cs. CHR '' '' \<notin> set f \<and> CHR '' '' \<notin> set op \<Longrightarrow>
   t \<in> set (where_tokens n cs) \<Longrightarrow> CHR '' '' \<notin> set t"
  by (induction n cs rule: where_tokens.induct) (auto simp: placeholder_no_space)

lemma conds_no_space:
  assumes "well_formed_params q"
  shows "\<forall>(f, op, a) \<in> set (sel_where (requested q)). CHR '' '' \<notin> set f \<and> CHR '' '' \<notin> set op"
  using assms validFields_chars validExpressions_chars
  by (auto simp: requested_def well_formed_params_def well_formed_filter_def split: option.splits)

lemma read_build_query:
  assumes wf: "well_formed_params q"
  shows "read_query (fst (buildPacketQuery q)) (snd (buildPacketQuery q)) = Some (requested q)"
proof -
  let ?cs = "sel_where (requested q)"
  let ?args = "map (snd \<circ> snd) ?cs @ [ArgInt (Limit q)]"
  let ?tail = "[''ORDER'', ''BY'', ''time'', Order q, ''LIMIT'', placeholder (Suc (length ?cs))]"
  have cols: "Columns q \<noteq> []" "\<forall>c \<in> set (Columns q). c \<noteq> [] \<and> CHR '','' \<notin> set c"
    "\<forall>c \<in> set (Columns q). CHR '' '' \<notin> set c"
    and order: "Order q = ''ASC'' \<or> Order q = ''DESC''"
    using wf validFields_chars by (auto simp: well_formed_params_def)
  have nospace: "\<forall>t \<in> set (query_tokens q). CHR '' '' \<notin> set t"
    using column_tokens_no_space [OF cols(3)] where_tokens_no_space [OF conds_no_space [OF wf]] order
    by (auto simp: query_tokens_def Let_def placeholder_no_space)
  have tail: "read_tail ?args ?tail = Some (Order q, ArgInt (Limit q))"
    using order by (auto simp: read_tail_def read_placeholder_eq nth_append)
  have "read_where ?args (where_tokens 1 ?cs @ ?tail) = Some (?cs, ?tail)" if "?cs \<noteq> []"
    by (rule read_where_tokens [OF that]) (auto simp: nth_append)
  moreover have "query_tokens q \<noteq> []" by (simp add: query_tokens_def Let_def)
  ultimately show ?thesis
    using tail read_column_tokens [OF cols(1,2)] nospace
    by (simp add: buildPacketQuery_eq [OF cols(1)] read_query_def Split_Join)
      (auto simp: query_tokens_def Let_def requested_def)
qed

section \<open>What is accepted\<close>

lemma filter_of_split:
  assumes "filter_of s f"
  obtains op where "SplitN (CHR '':'') 3 s = [FieldName f, op, FValue f]"
    and "validFields (FieldName f)" and "validExpressions op = Some (Operator f)"
proof -
  from assms obtain op where s: "s = FieldName f @ '':'' @ op @ '':'' @ FValue f"
    and v: "validFields (FieldName f)" "validExpressions op = Some (Operator f)"
    by (auto simp: filter_of_def)
  have "CHR '':'' \<notin> set (FieldName f)" using v(1) by (auto simp: validFields_def)
  moreover have "CHR '':'' \<notin> set op" using v(2) by (auto simp: validExpressions_def split: if_splits)
  ultimately have "SplitN (CHR '':'') 3 s = [FieldName f, op, FValue f]"
    using SplitN_three [of "CHR '':''" "FieldName f" op "FValue f"] by (simp add: s)
  with v that show thesis by blast
qed

lemma resolveFilters_loop_complete:
  "list_all2 filter_of ss fs \<Longrightarrow> resolveFilters_loop acc ss = Inr (acc @ fs)"
proof (induction ss arbitrary: acc fs)
  case Nil
  then show ?case by simp
next
  case (Cons s ss)
  then obtain f gs where fs: "fs = f # gs" "filter_of s f" "list_all2 filter_of ss gs"
    by (auto simp: list_all2_Cons1)
  obtain op where op: "SplitN (CHR '':'') 3 s = [FieldName f, op, FValue f]"
    "validFields (FieldName f)" "validExpressions op = Some (Operator f)"
    using fs(2) by (rule filter_of_split)
  have f: "\<lparr>FieldName = FieldName f, Operator = Operator f, FValue = FValue f\<rparr> = f" by (cases f) simp
  show ?case using Cons.IH [OF fs(3), of "acc @ [f]"] op by (simp add: fs(1) f)
qed

lemma resolveFilters_iff: "resolveFilters ss = Inr fs \<longleftrightarrow> list_all2 filter_of ss fs"
  using resolveFilters_Inr [of ss fs] resolveFilters_loop_complete [of ss fs "[]"]
  by (auto simp: resolveFilters_def)

lemma resolveColumns_iff:
  "resolveColumns s = Inr cs \<longleftrightarrow>
   (if s = [] then cs = defaultColumns else cs = s \<and> (\<forall>c \<in> set cs. validFields c))"
  by (auto simp: resolveColumns_def resolveColumns_loop_eq find_None_iff find_Some_iff
      split: option.splits)

definition valid_request :: "url_values \<Rightarrow> ListPacketsParams \<Rightarrow> bool" where
  \<comment> \<open>the documented parameters of \<open>GET /packets\<close>, one line each\<close>
  "valid_request q p \<longleftrightarrow>
     (if url_Get q ''limit'' = '''' then Limit p = 100 else Atoi (url_Get q ''limit'') = Inr (Limit p)) \<and>
     1 \<le> Limit p \<and> Limit p \<le> 100 \<and>
     (if url_Get q ''fields'' = '''' then Columns p = defaultColumns
      else Columns p = Split (CHR '','') (url_Get q ''fields'') \<and> (\<forall>c \<in> set (Columns p). validFields c)) \<and>
     (if url_Get q ''cursor'' = '''' then Cursor p = None
      else Cursor p \<noteq> None \<and> parse_RFC3339 (url_Get q ''cursor'') = Cursor p) \<and>
     (url_Get q ''order'' = ''desc'' \<and> Order p = ''DESC'' \<or>
      url_Get q ''order'' \<in> {'''', ''asc''} \<and> Order p = ''ASC'') \<and>
     list_all2 filter_of (q ''filter'') (Filters p)"

lemma resolveOrder_iff:
  "resolveOrder s = Inr d \<longleftrightarrow> s = ''desc'' \<and> d = ''DESC'' \<or> s \<in> {'''', ''asc''} \<and> d = ''ASC''"
  by (auto simp: resolveOrder_def)

lemma parse_chain: "(case a of Inl e \<Rightarrow> Inl (ErrInvalidLimit e)
      | Inr l \<Rightarrow> if l > 100 \<or> l < 1 then Inl ErrLimitOutOfRange else
         (case c of Inl e \<Rightarrow> Inl (ErrInvalidField e)
          | Inr cs \<Rightarrow> (case u of None \<Rightarrow> Inl ErrCursor
             | Some cu \<Rightarrow> (case d of Inl e \<Rightarrow> Inl (ErrOrder e)
                | Inr ord \<Rightarrow> (case fl of Inl e \<Rightarrow> Inl (ErrFilter e)
                   | Inr fs \<Rightarrow> Inr \<lparr>Limit = l, Columns = cs, Cursor = cu, Order = ord, Filters = fs\<rparr>)))))
      = Inr p \<longleftrightarrow>
      a = Inr (Limit p) \<and> 1 \<le> Limit p \<and> Limit p \<le> 100 \<and> c = Inr (Columns p) \<and>
      u = Some (Cursor p) \<and> d = Inr (Order p) \<and> fl = Inr (Filters p)"
  by (cases p; cases a; cases c; cases u; cases d; cases fl) auto

section \<open>Properties\<close>

text \<open>
  C5: \<open>parseListPacketsParams\<close> accepts exactly the requests that satisfy the documented rules of
  \<open>GET /packets\<close> (limit 1 to 100 with default 100, known fields, an RFC 3339 cursor, a known order,
  filters of the form \<open>field:op:value\<close> with a known field and operator), and returns exactly the
  parameters they describe.
\<close>

theorem parse_accepts_valid_requests:
  "parseListPacketsParams q = Inr p \<longleftrightarrow> valid_request q p"
proof -
  have "parseListPacketsParams q = Inr p \<longleftrightarrow>
      Atoi (if url_Get q ''limit'' = '''' then ''100'' else url_Get q ''limit'') = Inr (Limit p) \<and>
      1 \<le> Limit p \<and> Limit p \<le> 100 \<and>
      resolveColumns (if url_Get q ''fields'' \<noteq> '''' then Split (CHR '','') (url_Get q ''fields'') else [])
        = Inr (Columns p) \<and>
      (if url_Get q ''cursor'' \<noteq> '''' then map_option Some (parse_RFC3339 (url_Get q ''cursor''))
       else Some None) = Some (Cursor p) \<and>
      resolveOrder (url_Get q ''order'') = Inr (Order p) \<and>
      resolveFilters (q ''filter'') = Inr (Filters p)"
    unfolding parseListPacketsParams_def Let_def by (rule parse_chain)
  moreover have "Atoi ''100'' = Inr 100" by code_simp
  moreover have "(if url_Get q ''cursor'' \<noteq> '''' then map_option Some (parse_RFC3339 (url_Get q ''cursor''))
       else Some None) = Some (Cursor p) \<longleftrightarrow>
      (if url_Get q ''cursor'' = '''' then Cursor p = None
      else Cursor p \<noteq> None \<and> parse_RFC3339 (url_Get q ''cursor'') = Cursor p)"
    by (cases "Cursor p") auto
  ultimately show ?thesis
    unfolding valid_request_def resolveColumns_iff resolveOrder_iff resolveFilters_iff
    by (simp only: ) (simp split: if_split)
qed

text \<open>
  C4: for every accepted request, the SQL text that \<open>buildPacketQuery\<close> emits, read as SQL with its
  numbered arguments, is exactly the selection the request describes: its columns, its cursor and
  its filters in order, each bound to its own value, its sort order and its limit. No value of the
  request can change the shape of the query, since values only occur as arguments.
\<close>

theorem query_text_means_request:
  assumes "parseListPacketsParams q = Inr p" and "buildPacketQuery p = (query, args)"
  shows "read_query query args = Some (requested p)"
  using read_build_query [OF parse_well_formed [OF assms(1)]] assms(2) by simp

definition sample_request :: url_values where
  "sample_request =
     (\<lambda>k. if k = ''limit'' then [''10''] else if k = ''fields'' then [''time,length'']
          else if k = ''cursor'' then [''2026-03-07T14:31:40Z'']
          else if k = ''filter'' then [''protocol:eq:TCP'', ''length:gt:a:b''] else [])"

theorem query_text_means_request_witness:
  "\<exists>p query args. parseListPacketsParams sample_request = Inr p \<and> buildPacketQuery p = (query, args) \<and>
     query = ''SELECT time, length FROM packet_logs WHERE time > $1 AND protocol = $2 AND length > $3 ORDER BY time ASC LIMIT $4''
     \<and> read_query query args = Some (requested p)"
proof -
  let ?p = "\<lparr>Limit = 10, Columns = [''time'', ''length''], Cursor = Some 1772893900000000000,
    Order = ''ASC'', Filters = [\<lparr>FieldName = ''protocol'', Operator = ''='', FValue = ''TCP''\<rparr>,
      \<lparr>FieldName = ''length'', Operator = ''>'', FValue = ''a:b''\<rparr>]\<rparr>"
  let ?query = "''SELECT time, length FROM packet_logs WHERE time > $1 AND protocol = $2 AND length > $3 ORDER BY time ASC LIMIT $4''"
  let ?args = "[ArgTime 1772893900000000000, ArgStr ''TCP'', ArgStr ''a:b'', ArgInt 10]"
  have p: "parseListPacketsParams sample_request = Inr ?p" by code_simp
  have b: "buildPacketQuery ?p = (?query, ?args)" by code_simp
  from query_text_means_request [OF p b] p b show ?thesis by blast
qed

end
