(* ===== verification/Packet.thy ===== *)
theory Packet
  imports GoStrings
begin

text \<open>
  The data every component exchanges: IP addresses with their text form, UUIDs, the decoded
  packet row of \<open>shared/storage/storage.go\<close>, and the two copies of the packet decoder (the shared
  one in \<open>shared/ingestion/ingestion.go\<close> used by live-sniffer, and the one written out inside
  go-sniffer's \<open>PcapWorker\<close>). A packet of the third-party library \<open>gopacket\<close> is modelled by what
  the code reads of it: the result of each \<open>Layer\<close> call and the capture metadata.
\<close>

unbundle bit_operations_syntax

section \<open>Addresses, identifiers, rows\<close>

text \<open>\<open>netip.Addr\<close>: the zero value is invalid; an IPv6 address may have a zone.\<close>

datatype Addr = AddrZero | Addr4 "8 word list" | Addr16 "8 word list" | AddrZone "8 word list" string

definition IsValid :: "Addr \<Rightarrow> bool" where
  "IsValid a \<longleftrightarrow> a \<noteq> AddrZero"

fun hex_digits :: "nat \<Rightarrow> string" where
  "hex_digits n =
     (let d = n mod 16; c = (if d < 10 then digit_char d else char_of (87 + d))
      in if n < 16 then [c] else hex_digits (n div 16) @ [c])"

declare hex_digits.simps [simp del]

fun u16_groups :: "8 word list \<Rightarrow> nat list" where
  "u16_groups (a # b # bs) = (unat a * 256 + unat b) # u16_groups bs"
| "u16_groups bs = []"

definition zero_run :: "nat list \<Rightarrow> nat \<times> nat" where
  \<comment> \<open>the first longest run of at least two zero groups, or (255, 255)\<close>
  "zero_run gs =
     foldl (\<lambda>(zs, ze) i.
              let j = i + length (takeWhile (\<lambda>g. g = 0) (drop i gs))
              in if j - i \<ge> 2 \<and> j - i > ze - zs then (i, j) else (zs, ze))
           (255, 255) [0..<8]"

definition dotted :: "8 word list \<Rightarrow> string" where
  "dotted bs = Join ''.'' (map (\<lambda>b. digits (unat b)) bs)"

definition v6_String :: "8 word list \<Rightarrow> string" where
  "v6_String bs =
     (if take 12 bs = replicate 10 0 @ [255, 255] then ''::ffff:'' @ dotted (drop 12 bs)
      else
        (let gs = u16_groups bs; (zs, ze) = zero_run gs
         in if zs = 255 then Join '':'' (map hex_digits gs)
            else Join '':'' (map hex_digits (take zs gs)) @ ''::'' @
                 Join '':'' (map hex_digits (drop ze gs))))"

fun Addr_String :: "Addr \<Rightarrow> string" where
  "Addr_String AddrZero = ''invalid IP''"
| "Addr_String (Addr4 bs) = dotted bs"
| "Addr_String (Addr16 bs) = v6_String bs"
| "Addr_String (AddrZone bs zone) = v6_String bs @ ''%'' @ zone"

text \<open>\<open>pgtype.UUID\<close>: sixteen bytes and a validity flag (an invalid one stands for SQL NULL).\<close>

record UUID =
  UBytes :: "8 word list"
  Valid :: bool

definition UUID_zero :: UUID where
  "UUID_zero = \<lparr>UBytes = replicate 16 0, Valid = False\<rparr>"

text \<open>The zero \<open>time.Time\<close> is the first instant of year 1.\<close>

definition time_zero :: nanos where
  "time_zero = - 62135596800 * Second"

record PacketRow =
  Time :: nanos
  SrcIP :: Addr
  DstIP :: Addr
  SrcPort :: "32 word"
  DstPort :: "32 word"
  Protocol :: string
  PLength :: "32 word"
  TCPFlags :: "16 word"
  SourceID :: UUID

section \<open>Decoding a packet\<close>

record IPv4 =
  Protocol4 :: "8 word"
  SrcIP4 :: "8 word list"
  DstIP4 :: "8 word list"

record IPv6 =
  NextHeader :: "8 word"
  SrcIP6 :: "8 word list"
  DstIP6 :: "8 word list"

record TCP =
  TSrcPort :: "16 word"
  TDstPort :: "16 word"
  SYN :: bool
  ACK :: bool
  FIN :: bool
  RST :: bool
  PSH :: bool
  URG :: bool

record UDP =
  USrcPort :: "16 word"
  UDstPort :: "16 word"

record gopacket =
  layerIPv4 :: "IPv4 option"
  layerIPv6 :: "IPv6 option"
  layerTCP :: "TCP option"
  layerUDP :: "UDP option"
  ci_Timestamp :: nanos
  ci_Length :: "64 word"

definition packetFlagsToUint8 :: "TCP \<Rightarrow> 8 word" where
  "packetFlagsToUint8 tcp =
     (let mask = 0;
          mask = (if SYN tcp then mask OR push_bit 1 1 else mask);
          mask = (if ACK tcp then mask OR push_bit 4 1 else mask);
          mask = (if FIN tcp then mask OR push_bit 0 1 else mask);
          mask = (if RST tcp then mask OR push_bit 2 1 else mask);
          mask = (if PSH tcp then mask OR push_bit 3 1 else mask);
          mask = (if URG tcp then mask OR push_bit 5 1 else mask)
      in mask)"

text \<open>
  \<open>[4]byte(s)\<close> and \<open>[16]byte(s)\<close> copy the first bytes of the slice and panic on a shorter one;
  \<open>None\<close> is the panic.
\<close>

definition to_array :: "nat \<Rightarrow> 'a list \<Rightarrow> 'a list option" where
  "to_array n s = (if length s < n then None else Some (take n s))"

definition decode_network :: "(8 word \<Rightarrow> string) \<Rightarrow> gopacket \<Rightarrow> (string \<times> Addr \<times> Addr) option" where
  \<comment> \<open>protocol, source and destination; the first argument is gopacket's \<open>IPProtocol.String\<close>\<close>
  "decode_network proto_String p =
     (case layerIPv4 p of
        Some ip \<Rightarrow>
          (case (to_array 4 (SrcIP4 ip), to_array 4 (DstIP4 ip)) of
             (Some s, Some d) \<Rightarrow> Some (proto_String (Protocol4 ip), Addr4 s, Addr4 d)
           | _ \<Rightarrow> None)
      | None \<Rightarrow>
          (case layerIPv6 p of
             Some ip \<Rightarrow>
               (case (to_array 16 (SrcIP6 ip), to_array 16 (DstIP6 ip)) of
                  (Some s, Some d) \<Rightarrow> Some (proto_String (NextHeader ip), Addr16 s, Addr16 d)
                | _ \<Rightarrow> None)
           | None \<Rightarrow> Some ('''', AddrZero, AddrZero)))"

definition decode_transport :: "gopacket \<Rightarrow> 32 word \<times> 32 word \<times> 16 word" where
  "decode_transport p =
     (case layerTCP p of
        Some tcp \<Rightarrow> (ucast (TSrcPort tcp), ucast (TDstPort tcp), ucast (packetFlagsToUint8 tcp))
      | None \<Rightarrow>
          (case layerUDP p of
             Some udp \<Rightarrow> (ucast (USrcPort udp), ucast (UDstPort udp), 0)
           | None \<Rightarrow> (0, 0, 0)))"

definition PacketDecoder :: "(8 word \<Rightarrow> string) \<Rightarrow> UUID \<Rightarrow> gopacket \<Rightarrow> PacketRow option" where
  "PacketDecoder proto_String sessionId p =
     (case decode_network proto_String p of
        None \<Rightarrow> None
      | Some (protocol, srcIP, dstIP) \<Rightarrow>
          (let (srcPort, dstPort, tcpFlags) = decode_transport p in
           Some \<lparr>Time = ci_Timestamp p, SrcIP = srcIP, DstIP = dstIP, SrcPort = srcPort,
                 DstPort = dstPort, Protocol = protocol, PLength = ucast (ci_Length p),
                 TCPFlags = tcpFlags, SourceID = sessionId\<rparr>))"

section \<open>Facts about the decoder\<close>

lemma bit_if_or:
  fixes m x :: "'a::len word"
  shows "bit (if b then m OR x else m) n \<longleftrightarrow> bit m n \<or> b \<and> bit x n"
  by (simp add: bit_or_iff)

lemma bit_flag: "k < 8 \<Longrightarrow> bit (push_bit k (1 :: 8 word)) n \<longleftrightarrow> n = k"
  by (auto simp: bit_simps)

lemma bit_flags:
  "bit (push_bit 0 (1 :: 8 word)) n \<longleftrightarrow> n = 0" "bit (push_bit 1 (1 :: 8 word)) n \<longleftrightarrow> n = 1"
  "bit (push_bit 2 (1 :: 8 word)) n \<longleftrightarrow> n = 2" "bit (push_bit 3 (1 :: 8 word)) n \<longleftrightarrow> n = 3"
  "bit (push_bit 4 (1 :: 8 word)) n \<longleftrightarrow> n = 4" "bit (push_bit 5 (1 :: 8 word)) n \<longleftrightarrow> n = 5"
  by (rule bit_flag; simp)+

lemma unat_ucast_le: "unat (ucast (w :: 'a::len word) :: 'b::len word) \<le> unat w"
  unfolding unsigned_ucast_eq by (rule take_bit_nat_less_eq_self)

lemma packetFlagsToUint8_bit:
  "bit (packetFlagsToUint8 tcp) n \<longleftrightarrow>
     n = 0 \<and> FIN tcp \<or> n = 1 \<and> SYN tcp \<or> n = 2 \<and> RST tcp \<or> n = 3 \<and> PSH tcp \<or>
     n = 4 \<and> ACK tcp \<or> n = 5 \<and> URG tcp"
  unfolding packetFlagsToUint8_def Let_def bit_if_or bit_flags bit_0_eq by blast

lemma packetFlagsToUint8_range: "unat (packetFlagsToUint8 tcp) < 64"
proof -
  have "packetFlagsToUint8 tcp = take_bit 6 (packetFlagsToUint8 tcp)"
    by (rule bit_eqI) (auto simp: packetFlagsToUint8_bit bit_simps)
  then have "unat (packetFlagsToUint8 tcp) = unat (take_bit 6 (packetFlagsToUint8 tcp))" by simp
  also have "\<dots> = take_bit 6 (unat (packetFlagsToUint8 tcp))" by (simp add: unsigned_take_bit_eq)
  also have "\<dots> < 2 ^ 6" by (rule take_bit_nat_less_exp)
  finally show ?thesis by simp
qed

lemma to_array_length: "to_array n s = Some a \<Longrightarrow> length a = n"
  by (auto simp: to_array_def split: if_splits)

lemma IsValid_simps [simp]:
  "IsValid (Addr4 s)" "IsValid (Addr16 s)" "\<not> IsValid AddrZero"
  by (simp_all add: IsValid_def)

lemma decode_network_valid:
  assumes "decode_network pS p = Some (pr, s, d)"
  shows "IsValid s \<longleftrightarrow> layerIPv4 p \<noteq> None \<or> layerIPv6 p \<noteq> None"
    and "IsValid d \<longleftrightarrow> IsValid s"
  using assms by (auto simp: decode_network_def split: option.splits prod.splits)

lemma PacketDecoder_Some:
  "PacketDecoder pS u p = Some r \<Longrightarrow>
   \<exists>pr s d. decode_network pS p = Some (pr, s, d) \<and>
     r = \<lparr>Time = ci_Timestamp p, SrcIP = s, DstIP = d, SrcPort = fst (decode_transport p),
          DstPort = fst (snd (decode_transport p)), Protocol = pr, PLength = ucast (ci_Length p),
          TCPFlags = snd (snd (decode_transport p)), SourceID = u\<rparr>"
  by (auto simp: PacketDecoder_def Let_def split: option.splits prod.splits)

lemma decode_transport_bounds:
  assumes "decode_transport p = (sp, dp, fl)"
  shows "unat sp < 65536" and "unat dp < 65536" and "unat fl < 64"
proof -
  have port: "unat (ucast (w :: 16 word) :: 32 word) < 65536" for w
    using unsigned_less [of w, where ?'a = nat] by (intro le_less_trans [OF unat_ucast_le]) simp
  have flag: "unat (ucast (packetFlagsToUint8 t) :: 16 word) < 64" for t
    by (rule le_less_trans [OF unat_ucast_le packetFlagsToUint8_range])
  show "unat sp < 65536" "unat dp < 65536" "unat fl < 64"
    using assms port flag by (auto simp: decode_transport_def split: option.splits)
qed

section \<open>Properties\<close>

text \<open>
  The mask that is stored for a TCP segment is the low six bits of the flags byte of
  RFC 793: FIN is worth 1, SYN 2, RST 4, PSH 8, ACK 16 and URG 32, independently of each other.
\<close>

theorem tcp_flags_wire_value:
  "unat (packetFlagsToUint8 tcp) =
     of_bool (FIN tcp) + 2 * of_bool (SYN tcp) + 4 * of_bool (RST tcp) + 8 * of_bool (PSH tcp) +
     16 * of_bool (ACK tcp) + 32 * of_bool (URG tcp)"
  unfolding packetFlagsToUint8_def Let_def
  by (cases "FIN tcp"; cases "SYN tcp"; cases "RST tcp"; cases "PSH tcp"; cases "ACK tcp"; cases "URG tcp"; simp)

text \<open>
  C35: What the decoder records of a packet: its addresses are valid exactly when the packet
  has an IP layer (both or neither), a packet without one keeps an empty protocol name, the ports
  are those of the TCP or UDP layer and fit 16 bits, and flags are recorded for TCP only.
\<close>

theorem decoder_row_meaning:
  assumes "PacketDecoder pS u p = Some r"
  shows "(IsValid (SrcIP r) \<longleftrightarrow> layerIPv4 p \<noteq> None \<or> layerIPv6 p \<noteq> None) \<and>
    (IsValid (DstIP r) \<longleftrightarrow> IsValid (SrcIP r)) \<and>
    (\<not> IsValid (SrcIP r) \<longrightarrow> Protocol r = '''') \<and>
    unat (SrcPort r) = (case (layerTCP p, layerUDP p) of (Some t, _) \<Rightarrow> unat (TSrcPort t)
      | (None, Some d) \<Rightarrow> unat (USrcPort d) | _ \<Rightarrow> 0) \<and>
    unat (DstPort r) = (case (layerTCP p, layerUDP p) of (Some t, _) \<Rightarrow> unat (TDstPort t)
      | (None, Some d) \<Rightarrow> unat (UDstPort d) | _ \<Rightarrow> 0) \<and>
    unat (TCPFlags r) = (case layerTCP p of Some t \<Rightarrow> unat (packetFlagsToUint8 t) | None \<Rightarrow> 0) \<and>
    SourceID r = u"
proof -
  obtain pr s d where net: "decode_network pS p = Some (pr, s, d)"
    and r: "r = \<lparr>Time = ci_Timestamp p, SrcIP = s, DstIP = d, SrcPort = fst (decode_transport p),
          DstPort = fst (snd (decode_transport p)), Protocol = pr, PLength = ucast (ci_Length p),
          TCPFlags = snd (snd (decode_transport p)), SourceID = u\<rparr>"
    using PacketDecoder_Some [OF assms] by blast
  have "layerIPv4 p = None \<Longrightarrow> layerIPv6 p = None \<Longrightarrow> pr = ''''"
    using net by (simp add: decode_network_def)
  moreover have port: "unat (ucast (w :: 16 word) :: 32 word) = unat w" for w
    using unsigned_less [of w, where ?'a = nat]
    by (simp add: unsigned_ucast_eq take_bit_nat_eq_self)
  moreover have "unat (ucast (packetFlagsToUint8 t) :: 16 word) = unat (packetFlagsToUint8 t)" for t
    using packetFlagsToUint8_range [of t] by (simp add: unsigned_ucast_eq take_bit_nat_eq_self)
  ultimately show ?thesis
    using decode_network_valid [OF net] by (auto simp: r decode_transport_def split: option.split)
qed

definition sample_tcp_packet :: gopacket where
  "sample_tcp_packet =
     \<lparr>layerIPv4 = Some \<lparr>Protocol4 = 6, SrcIP4 = [10, 5, 7, 113], DstIP4 = [54, 90, 39, 78]\<rparr>,
      layerIPv6 = None,
      layerTCP = Some \<lparr>TSrcPort = 63040, TDstPort = 443, SYN = False, ACK = True, FIN = False,
                       RST = True, PSH = False, URG = False\<rparr>,
      layerUDP = None, ci_Timestamp = 0, ci_Length = 54\<rparr>"

lemma decoder_row_meaning_witness:
  "\<exists>r. PacketDecoder (\<lambda>_. ''TCP'') UUID_zero sample_tcp_packet = Some r \<and> IsValid (SrcIP r) \<and>
       unat (SrcPort r) = 63040 \<and> unat (DstPort r) = 443"
proof -
  obtain r where r: "PacketDecoder (\<lambda>_. ''TCP'') UUID_zero sample_tcp_packet = Some r"
    by (simp add: PacketDecoder_def decode_network_def to_array_def sample_tcp_packet_def split_beta)
  from decoder_row_meaning [OF r] r show ?thesis by (simp add: sample_tcp_packet_def)
qed

end
