(* ===== verification/PacketStore.thy ===== *)
theory PacketStore
  imports PacketQuery Packet
begin

text \<open>
  The response side of \<open>go-sniffer/internal/api/packets.go\<close>: the column mappers, \<open>QueryPackets\<close>
  with its next cursor, and the pages a client gets by following the cursors. The database is
  modelled by what its driver reports (the rows with the result of each \<open>Scan\<close>, then \<open>Err\<close>), and,
  for the pagination lemmas, by evaluating the query text with the reader of \<open>PacketQuery\<close>.
\<close>

section \<open>Rows as the driver reports them\<close>

datatype db_error = ConnError string | PgError string

text \<open>\<open>pgx.Rows\<close>: what each \<open>Scan\<close> gives, and what \<open>Err\<close> says after the last row.\<close>

type_synonym 'r rows = "(db_error + 'r) list \<times> db_error option"

abbreviation all_rows :: "'r list \<Rightarrow> 'r rows" where
  "all_rows rs \<equiv> (map Inr rs, None)"

section \<open>Column mappers\<close>

record Packet =
  Timestamp :: nanos
  pSrcIP :: "string option"
  pDstIP :: "string option"
  pSrcPort :: "int option"
  pDstPort :: "int option"
  pProtocol :: "string option"
  pLength :: "int option"
  pTCPFlags :: "int option"
  pJobID :: "string option"

record PaginationResponse =
  Data :: "Packet list"
  NextCursor :: "string option"

text \<open>
  A mapper scans one column of a table row into the row variable, and copies the row variable's
  field into the response packet. The first argument is \<open>pgtype.UUID\<close>'s \<open>String\<close>.
\<close>

record columnMapper =
  scan :: "PacketRow \<Rightarrow> PacketRow \<Rightarrow> PacketRow"
  mapTo :: "PacketRow \<Rightarrow> Packet \<Rightarrow> Packet"

definition columnMappers :: "(UUID \<Rightarrow> string) \<Rightarrow> string \<rightharpoonup> columnMapper" where
  "columnMappers uuid_String =
     [''time'' \<mapsto> \<lparr>scan = \<lambda>t r. r\<lparr>Time := Time t\<rparr>, mapTo = \<lambda>r p. p\<lparr>Timestamp := Time r\<rparr>\<rparr>,
      ''src_ip'' \<mapsto> \<lparr>scan = \<lambda>t r. r\<lparr>SrcIP := SrcIP t\<rparr>,
                     mapTo = \<lambda>r p. p\<lparr>pSrcIP := Some (Addr_String (SrcIP r))\<rparr>\<rparr>,
      ''dst_ip'' \<mapsto> \<lparr>scan = \<lambda>t r. r\<lparr>DstIP := DstIP t\<rparr>,
                     mapTo = \<lambda>r p. p\<lparr>pDstIP := Some (Addr_String (DstIP r))\<rparr>\<rparr>,
      ''src_port'' \<mapsto> \<lparr>scan = \<lambda>t r. r\<lparr>SrcPort := SrcPort t\<rparr>,
                       mapTo = \<lambda>r p. p\<lparr>pSrcPort := Some (sint (SrcPort r))\<rparr>\<rparr>,
      ''dst_port'' \<mapsto> \<lparr>scan = \<lambda>t r. r\<lparr>DstPort := DstPort t\<rparr>,
                       mapTo = \<lambda>r p. p\<lparr>pDstPort := Some (sint (DstPort r))\<rparr>\<rparr>,
      ''protocol'' \<mapsto> \<lparr>scan = \<lambda>t r. r\<lparr>Protocol := Protocol t\<rparr>,
                       mapTo = \<lambda>r p. p\<lparr>pProtocol := Some (Protocol r)\<rparr>\<rparr>,
      ''length'' \<mapsto> \<lparr>scan = \<lambda>t r. r\<lparr>PLength := PLength t\<rparr>,
                     mapTo = \<lambda>r p. p\<lparr>pLength := Some (sint (PLength r))\<rparr>\<rparr>,
      ''tcp_flags'' \<mapsto> \<lparr>scan = \<lambda>t r. r\<lparr>TCPFlags := TCPFlags t\<rparr>,
                        mapTo = \<lambda>r p. p\<lparr>pTCPFlags := Some (sint (TCPFlags r))\<rparr>\<rparr>,
      ''job_id'' \<mapsto> \<lparr>scan = \<lambda>t r. r\<lparr>SourceID := SourceID t\<rparr>,
                     mapTo = \<lambda>r p. p\<lparr>pJobID :=
                       Some (if Valid (SourceID r) then uuid_String (SourceID r) else '''')\<rparr>\<rparr>]"

definition PacketRow_zero :: PacketRow where
  "PacketRow_zero =
     \<lparr>Time = time_zero, SrcIP = AddrZero, DstIP = AddrZero, SrcPort = 0, DstPort = 0,
      Protocol = '''', PLength = 0, TCPFlags = 0, SourceID = UUID_zero\<rparr>"

definition Packet_zero :: Packet where
  "Packet_zero =
     \<lparr>Timestamp = time_zero, pSrcIP = None, pDstIP = None, pSrcPort = None, pDstPort = None,
      pProtocol = None, pLength = None, pTCPFlags = None, pJobID = None\<rparr>"

text \<open>
  Looking up a column that has no mapper yields nil functions, and calling one panics: \<open>None\<close>.
\<close>

fun scan_columns :: "(UUID \<Rightarrow> string) \<Rightarrow> string list \<Rightarrow> PacketRow \<Rightarrow> PacketRow \<Rightarrow> PacketRow option" where
  "scan_columns uS [] t r = Some r"
| "scan_columns uS (c # cs) t r =
     (case columnMappers uS c of None \<Rightarrow> None | Some m \<Rightarrow> scan_columns uS cs t (scan m t r))"

fun map_columns :: "(UUID \<Rightarrow> string) \<Rightarrow> string list \<Rightarrow> PacketRow \<Rightarrow> Packet \<Rightarrow> Packet option" where
  "map_columns uS [] r p = Some p"
| "map_columns uS (c # cs) r p =
     (case columnMappers uS c of None \<Rightarrow> None | Some m \<Rightarrow> map_columns uS cs r (mapTo m r p))"

definition row_packet :: "(UUID \<Rightarrow> string) \<Rightarrow> string list \<Rightarrow> PacketRow \<Rightarrow> Packet option" where
  "row_packet uS cols t =
     (case scan_columns uS cols t PacketRow_zero of
        None \<Rightarrow> None
      | Some row \<Rightarrow> map_columns uS cols row Packet_zero)"

fun query_loop ::
  "(UUID \<Rightarrow> string) \<Rightarrow> string list \<Rightarrow> Packet list \<Rightarrow> (db_error + PacketRow) list \<Rightarrow>
   (db_error + Packet list) option"
where
  "query_loop uS cols acc [] = Some (Inr acc)"
| "query_loop uS cols acc (Inl e # rs) = Some (Inl e)"
| "query_loop uS cols acc (Inr t # rs) =
     (case row_packet uS cols t of None \<Rightarrow> None | Some p \<Rightarrow> query_loop uS cols (acc @ [p]) rs)"

definition QueryPackets ::
  "(UUID \<Rightarrow> string) \<Rightarrow> ListPacketsParams \<Rightarrow> (db_error + PacketRow rows) \<Rightarrow>
   (db_error + PaginationResponse) option"
where
  "QueryPackets uS q resp =
     (case resp of
        Inl e \<Rightarrow> Some (Inl e)
      | Inr (rs, rows_Err) \<Rightarrow>
          (if Limit q < 0 then None
           else
             (case query_loop uS (Columns q) [] rs of
                None \<Rightarrow> None
              | Some (Inl e) \<Rightarrow> Some (Inl e)
              | Some (Inr dataQueried) \<Rightarrow>
                  (case rows_Err of
                     Some e \<Rightarrow> Some (Inl e)
                   | None \<Rightarrow>
                       (if int (length dataQueried) = Limit q
                        then (if dataQueried = [] then None
                              else Some (Inr \<lparr>Data = dataQueried,
                                     NextCursor = Some (format_RFC3339 (Timestamp (last dataQueried)))\<rparr>))
                        else Some (Inr \<lparr>Data = dataQueried, NextCursor = None\<rparr>))))))"

section \<open>The table the query reads\<close>

text \<open>
  The rows of \<open>packet_logs\<close> that satisfy every condition, sorted by time, cut at the limit. The
  comparison of a column with a filter's text is the database's: it is the parameter \<open>sem\<close>.
\<close>

definition cond_holds ::
  "(string \<Rightarrow> string \<Rightarrow> string \<Rightarrow> PacketRow \<Rightarrow> bool) \<Rightarrow> string \<times> string \<times> sql_arg \<Rightarrow> PacketRow \<Rightarrow> bool"
where
  "cond_holds sem c r =
     (case c of
        (f, op, ArgStr v) \<Rightarrow> sem f op v r
      | (f, op, ArgTime t) \<Rightarrow> f = ''time'' \<and> op = ''>'' \<and> t < Time r
      | (f, op, ArgInt i) \<Rightarrow> False)"

definition eval_select ::
  "(string \<Rightarrow> string \<Rightarrow> string \<Rightarrow> PacketRow \<Rightarrow> bool) \<Rightarrow> PacketRow list \<Rightarrow> packet_select \<Rightarrow> PacketRow list"
where
  "eval_select sem tbl s =
     (let matching = filter (\<lambda>r. list_all (\<lambda>c. cond_holds sem c r) (sel_where s)) tbl;
          sorted = sort_key Time matching;
          ordered = (if sel_order s = ''DESC'' then rev sorted else sorted)
      in case sel_limit s of ArgInt n \<Rightarrow> take (nat n) ordered | _ \<Rightarrow> ordered)"

definition db_Query ::
  "(string \<Rightarrow> string \<Rightarrow> string \<Rightarrow> PacketRow \<Rightarrow> bool) \<Rightarrow> PacketRow list \<Rightarrow> string \<Rightarrow> sql_arg list \<Rightarrow>
   db_error + PacketRow rows"
where
  "db_Query sem tbl query args =
     (case read_query query args of
        None \<Rightarrow> Inl (PgError ''42601'')
      | Some s \<Rightarrow> Inr (all_rows (eval_select sem tbl s)))"

section \<open>Every validated request is answered\<close>

lemma columnMappers_total: "columnMappers uS c \<noteq> None \<longleftrightarrow> validFields c"
  by (auto simp: columnMappers_def validFields_def split: if_splits)

lemma columnMappers_Some: "validFields c \<Longrightarrow> \<exists>m. columnMappers uS c = Some m"
  using columnMappers_total [of uS c] by auto

lemma scan_columns_Some:
  "\<forall>c \<in> set cs. validFields c \<Longrightarrow> \<exists>r'. scan_columns uS cs t r = Some r'"
  by (induction cs arbitrary: r) (auto dest!: columnMappers_Some [of _ uS])

lemma map_columns_Some:
  "\<forall>c \<in> set cs. validFields c \<Longrightarrow> \<exists>p'. map_columns uS cs r p = Some p'"
  by (induction cs arbitrary: p) (auto dest!: columnMappers_Some [of _ uS])

lemma row_packet_Some:
  "\<forall>c \<in> set cs. validFields c \<Longrightarrow> \<exists>p. row_packet uS cs t = Some p"
  using scan_columns_Some [of cs uS t PacketRow_zero] map_columns_Some [of cs uS _ Packet_zero]
  by (auto simp: row_packet_def split: option.splits)

lemma query_loop_total:
  "\<forall>c \<in> set cs. validFields c \<Longrightarrow> query_loop uS cs acc rs \<noteq> None"
proof (induction uS cs acc rs rule: query_loop.induct)
  case (3 uS cols acc t rs)
  then show ?case using row_packet_Some [of cols uS t] by auto
qed auto

lemma query_loop_rows:
  assumes "\<forall>c \<in> set cs. validFields c"
  shows "query_loop uS cs acc (map Inr rs)
    = Some (Inr (acc @ map (\<lambda>t. the (row_packet uS cs t)) rs))"
proof (induction rs arbitrary: acc)
  case Nil
  then show ?case by simp
next
  case (Cons t rs)
  obtain p where "row_packet uS cs t = Some p" using row_packet_Some [OF assms] by blast
  with Cons show ?case by simp
qed

lemma query_loop_length:
  "query_loop uS cs acc rs = Some (Inr ps) \<Longrightarrow> length ps = length acc + length rs"
  by (induction uS cs acc rs rule: query_loop.induct) (auto split: option.splits)

lemma QueryPackets_no_panic:
  assumes "well_formed_params q"
  shows "QueryPackets uS q resp \<noteq> None"
proof -
  have "\<forall>c \<in> set (Columns q). validFields c" "1 \<le> Limit q"
    using assms by (auto simp: well_formed_params_def)
  moreover from this(1) have "query_loop uS (Columns q) [] rs \<noteq> None" for rs
    by (rule query_loop_total)
  ultimately show ?thesis
    unfolding QueryPackets_def by (auto split: sum.split option.split prod.split simp del: not_None_eq)
qed

text \<open>The scan of a column depends on nothing but that column, so the order of columns is irrelevant.\<close>

lemma scan_columns_Time:
  "scan_columns uS cs t r = Some r' \<Longrightarrow> Time r' = (if ''time'' \<in> set cs then Time t else Time r)"
  by (induction cs arbitrary: r) (auto simp: columnMappers_def split: if_splits)

lemma map_columns_Timestamp:
  "map_columns uS cs r p = Some p' \<Longrightarrow>
   Timestamp p' = (if ''time'' \<in> set cs then Time r else Timestamp p)"
  by (induction cs arbitrary: p) (auto simp: columnMappers_def split: if_splits)

lemma row_packet_Timestamp:
  "row_packet uS cs t = Some p \<Longrightarrow>
   Timestamp p = (if ''time'' \<in> set cs then Time t else time_zero)"
  by (auto simp: row_packet_def PacketRow_zero_def Packet_zero_def split: option.splits
      dest!: scan_columns_Time map_columns_Timestamp)

end
