(* ===== verification/Http.thy ===== *)
theory Http
  imports Prelude
begin

text \<open>
  \<open>net/http\<close>'s \<open>ResponseWriter\<close> as the handlers use it: the first \<open>WriteHeader\<close> (explicit, or
  implied by the first write) fixes the status, later ones are ignored, and bodies accumulate.
  The content of a body is left abstract: a handler says what value it encoded or printed.
\<close>

record 'b ResponseWriter =
  wstatus :: "int option"
  wctype :: string
  wbody :: "'b list"

definition new_writer :: "'b ResponseWriter" where
  "new_writer = \<lparr>wstatus = None, wctype = '''', wbody = []\<rparr>"

definition SetContentType :: "string \<Rightarrow> 'b ResponseWriter \<Rightarrow> 'b ResponseWriter" where
  \<comment> \<open>a header set after the status has been sent does not reach the client\<close>
  "SetContentType t w = (if wstatus w = None then w\<lparr>wctype := t\<rparr> else w)"

definition WriteHeader :: "int \<Rightarrow> 'b ResponseWriter \<Rightarrow> 'b ResponseWriter" where
  "WriteHeader code w = (if wstatus w = None then w\<lparr>wstatus := Some code\<rparr> else w)"

definition WriteBody :: "'b \<Rightarrow> 'b ResponseWriter \<Rightarrow> 'b ResponseWriter" where
  "WriteBody b w = (let w' = WriteHeader 200 w in w'\<lparr>wbody := wbody w' @ [b]\<rparr>)"

definition http_Error :: "'b \<Rightarrow> int \<Rightarrow> 'b ResponseWriter \<Rightarrow> 'b ResponseWriter" where
  "http_Error b code w =
     WriteBody b (WriteHeader code (SetContentType ''text/plain; charset=utf-8'' w))"

lemmas http_defs = new_writer_def SetContentType_def WriteHeader_def WriteBody_def http_Error_def

lemma WriteHeader_first [simp]: "wstatus (WriteHeader c w) = (case wstatus w of None \<Rightarrow> Some c | s \<Rightarrow> s)"
  by (simp add: WriteHeader_def split: option.split)

lemma http_Error_status [simp]:
  "wstatus (http_Error b c w) = (case wstatus w of None \<Rightarrow> Some c | s \<Rightarrow> s)"
  by (simp add: http_Error_def WriteBody_def Let_def SetContentType_def WriteHeader_def split: option.split)

end
