(* ===== verification/GoFloat.thy ===== *)
theory GoFloat
  imports Complex_Main Prelude
begin

text \<open>
  Go's \<open>float64\<close> for the finite values the program computes with: a float is the rational number
  it denotes, and every arithmetic operation is the exact operation followed by \<open>fl64\<close>, rounding
  to the nearest 53-bit binary float (ties to even, with gradual underflow; the values here are
  far below the overflow threshold). The locale \<open>float_rounding\<close> states what the rate limiter
  relies on, and \<open>fl64\<close> is shown to provide it.
\<close>

section \<open>Rounding to nearest even\<close>

definition round_even :: "rat \<Rightarrow> int" where
  "round_even x =
     (let f = \<lfloor>x\<rfloor>; d = x - of_int f
      in if d < 1 / 2 then f else if d > 1 / 2 then f + 1 else if even f then f else f + 1)"

lemma round_even_of_int [simp]: "round_even (of_int n) = n"
  by (simp add: round_even_def)

lemma round_even_bounds: "\<lfloor>x\<rfloor> \<le> round_even x" "round_even x \<le> \<lfloor>x\<rfloor> + 1"
  by (auto simp: round_even_def Let_def)

lemma round_even_error: "\<bar>of_int (round_even x) - x\<bar> \<le> 1 / 2"
proof -
  define f where "f = \<lfloor>x\<rfloor>"
  have "of_int f \<le> x" "x < of_int f + 1" unfolding f_def by linarith+
  then show ?thesis
    unfolding round_even_def Let_def f_def [symmetric] by (auto simp: abs_le_iff)
qed

lemma round_even_mono:
  assumes "x \<le> y"
  shows "round_even x \<le> round_even y"
proof (cases "\<lfloor>x\<rfloor> = \<lfloor>y\<rfloor>")
  case True
  with assms show ?thesis by (auto simp: round_even_def Let_def)
next
  case False
  with floor_mono [OF assms] have "\<lfloor>x\<rfloor> + 1 \<le> \<lfloor>y\<rfloor>" by linarith
  with round_even_bounds(2) [of x] round_even_bounds(1) [of y] show ?thesis by linarith
qed

section \<open>Powers of two and the binary exponent\<close>

definition pow2 :: "int \<Rightarrow> rat" where
  "pow2 e = (if 0 \<le> e then 2 ^ nat e else 1 / 2 ^ nat (- e))"

lemma pow2_powi: "pow2 e = 2 powi e"
  unfolding pow2_def power_int_def by (simp only: inverse_eq_divide power_one_over)

lemma pow2_pos [simp]: "0 < pow2 e" "0 \<le> pow2 e" "pow2 e \<noteq> 0"
  by (simp_all add: pow2_powi)

lemma pow2_add: "pow2 (a + b) = pow2 a * pow2 b"
  by (simp add: pow2_powi power_int_add)

lemma pow2_mono: "a \<le> b \<Longrightarrow> pow2 a \<le> pow2 b"
  by (simp add: pow2_powi power_int_increasing)

lemma pow2_less_iff: "pow2 a < pow2 b \<longleftrightarrow> a < b"
proof
  show "a < b" if "pow2 a < pow2 b"
  proof (rule ccontr)
    assume "\<not> a < b"
    then have "pow2 b \<le> pow2 a" by (intro pow2_mono) simp
    with that show False by simp
  qed
  show "pow2 a < pow2 b" if "a < b"
    unfolding pow2_powi using that by (intro power_int_strict_increasing) simp_all
qed

lemma pow2_nat: "0 \<le> e \<Longrightarrow> pow2 e = of_int (2 ^ nat e)"
  by (simp add: pow2_def)

lemma pow2_0 [simp]: "pow2 0 = 1"
  by (simp add: pow2_def)

fun ilog :: "int \<Rightarrow> int" where
  "ilog n = (if n \<le> 1 then 0 else 1 + ilog (n div 2))"

declare ilog.simps [simp del]

lemma ilog_nonneg: "0 \<le> ilog n"
  by (induction n rule: ilog.induct) (subst ilog.simps, simp)

lemma ilog_bounds: "1 \<le> n \<Longrightarrow> 2 ^ nat (ilog n) \<le> n \<and> n < 2 ^ nat (ilog n + 1)"
proof (induction n rule: ilog.induct)
  case (1 n)
  show ?case
  proof (cases "n = 1")
    case True
    then show ?thesis by (simp add: ilog.simps [of 1])
  next
    case False
    with "1.prems" have n: "\<not> n \<le> 1" and h: "1 \<le> n div 2" by linarith+
    let ?l = "ilog (n div 2)"
    have l: "0 \<le> ?l" by (rule ilog_nonneg)
    have "nat (1 + ?l) = Suc (nat ?l)" "nat (1 + ?l + 1) = Suc (nat (?l + 1))"
      using l by linarith+
    moreover have "2 ^ nat ?l \<le> n div 2 \<and> n div 2 < 2 ^ nat (?l + 1)" using "1.IH" [OF n h] .
    ultimately show ?thesis using n by (simp add: ilog.simps [of n]) linarith
  qed
qed

definition ilog2 :: "rat \<Rightarrow> int" where
  "ilog2 x =
     (let (p, q) = quotient_of x; e = ilog p - ilog q in if pow2 e \<le> x then e else e - 1)"

lemma ilog2_bounds:
  assumes "0 < x"
  shows "pow2 (ilog2 x) \<le> x" and "x < pow2 (ilog2 x + 1)"
proof -
  obtain p q where pq: "quotient_of x = (p, q)" by fastforce
  have q: "0 < q" using pq by (rule quotient_of_denom_pos)
  have x: "x = of_int p / of_int q" using pq by (rule quotient_of_div)
  with assms q have p: "0 < p" by (simp add: zero_less_divide_iff)
  define e where "e = ilog p - ilog q"
  have bp: "pow2 (ilog p) \<le> of_int p" "of_int p < pow2 (ilog p + 1)"
    using ilog_bounds [of p] p ilog_nonneg [of p]
    by (simp_all only: pow2_nat of_int_le_iff of_int_less_iff)
  have bq: "pow2 (ilog q) \<le> of_int q" "of_int q < pow2 (ilog q + 1)"
    using ilog_bounds [of q] q ilog_nonneg [of q]
    by (simp_all only: pow2_nat of_int_le_iff of_int_less_iff)
  have "x < pow2 (ilog p + 1) / pow2 (ilog q)"
    unfolding x using bp bq p q by (intro frac_less) simp_all
  also have "\<dots> = pow2 (e + 1)"
    using pow2_add [of "e + 1" "ilog q"] by (simp add: e_def field_simps)
  finally have upper: "x < pow2 (e + 1)" .
  have "pow2 (ilog p) / pow2 (ilog q + 1) < x"
    unfolding x using bp bq p q by (intro frac_less2) simp_all
  moreover have "pow2 (ilog p) / pow2 (ilog q + 1) = pow2 (e - 1)"
    using pow2_add [of "e - 1" "ilog q + 1"] by (simp add: e_def field_simps)
  ultimately have lower: "pow2 (e - 1) < x" by simp
  have "ilog2 x = (if pow2 e \<le> x then e else e - 1)"
    by (simp add: ilog2_def pq e_def Let_def)
  then show "pow2 (ilog2 x) \<le> x" "x < pow2 (ilog2 x + 1)"
    using upper lower by (auto split: if_splits)
qed

lemma ilog2_less: "0 < x \<Longrightarrow> x < pow2 e \<Longrightarrow> ilog2 x < e"
  using ilog2_bounds(1) [of x] pow2_less_iff [of "ilog2 x" e] by linarith

lemma ilog2_mono:
  assumes "0 < x" "x \<le> y"
  shows "ilog2 x \<le> ilog2 y"
  using assms ilog2_bounds(2) [of y] ilog2_less [of x "ilog2 y + 1"] by linarith

section \<open>Rounding to a 53-bit float\<close>

definition fl_exp :: "rat \<Rightarrow> int" where
  "fl_exp x = max (ilog2 x - 52) (- 1074)"

definition fl_pos :: "rat \<Rightarrow> rat" where
  "fl_pos x = of_int (round_even (x / pow2 (fl_exp x))) * pow2 (fl_exp x)"

definition fl64 :: "rat \<Rightarrow> rat" where
  "fl64 x = (if x = 0 then 0 else if x < 0 then - fl_pos (- x) else fl_pos x)"

text \<open>The floats: a 53-bit integer times a power of two that is not too small.\<close>

definition is_float :: "rat \<Rightarrow> bool" where
  "is_float x \<longleftrightarrow> (\<exists>m k. x = of_int m * pow2 k \<and> \<bar>m\<bar> < 2 ^ 53 \<and> - 1074 \<le> k)"

lemma fl_pos_integral:
  assumes "x = of_int m * pow2 k" and "fl_exp x \<le> k"
  shows "fl_pos x = x"
proof -
  define e where "e = fl_exp x"
  have "pow2 k = of_int (2 ^ nat (k - e)) * pow2 e"
    using pow2_add [of "k - e" e] assms(2) pow2_nat [of "k - e"] by (simp add: e_def)
  then have x: "x = of_int (m * 2 ^ nat (k - e)) * pow2 e" by (simp add: assms(1))
  then have "x / pow2 e = of_int (m * 2 ^ nat (k - e))" by (simp only: nonzero_divide_eq_eq pow2_pos not_False_eq_True)
  then show ?thesis unfolding fl_pos_def e_def [symmetric]
    by (simp only: round_even_of_int) (simp only: x [symmetric])
qed

lemma fl_pos_float:
  assumes "is_float x" "0 < x"
  shows "fl_pos x = x"
proof -
  obtain m k where x: "x = of_int m * pow2 k" and m: "\<bar>m\<bar> < 2 ^ 53" and k: "- 1074 \<le> k"
    using assms(1) by (auto simp: is_float_def)
  have "of_int m < (of_int (2 ^ 53) :: rat)" using m by (simp only: of_int_less_iff)
  then have "x < pow2 53 * pow2 k" unfolding x by (simp add: pow2_def [of 53])
  then have "x < pow2 (53 + k)" by (simp only: pow2_add)
  with assms(2) have "ilog2 x < 53 + k" by (rule ilog2_less)
  with k have "fl_exp x \<le> k" by (simp add: fl_exp_def)
  with x show ?thesis by (rule fl_pos_integral)
qed

lemma fl64_float: "is_float x \<Longrightarrow> fl64 x = x"
proof -
  assume f: "is_float x"
  then have "is_float (- x)"
    unfolding is_float_def by (metis abs_minus_cancel mult_minus_left of_int_minus)
  with f show ?thesis using fl_pos_float [of x] fl_pos_float [of "- x"] by (auto simp: fl64_def)
qed

lemma fl_exp_mono: "0 < x \<Longrightarrow> x \<le> y \<Longrightarrow> fl_exp x \<le> fl_exp y"
  using ilog2_mono [of x y] by (simp add: fl_exp_def max_def)

lemma fl_pos_mono:
  assumes "0 < x" "x \<le> y"
  shows "fl_pos x \<le> fl_pos y"
proof (cases "fl_exp x = fl_exp y")
  case True
  have "x / pow2 (fl_exp y) \<le> y / pow2 (fl_exp y)" using assms(2) by (intro divide_right_mono) simp_all
  then have "round_even (x / pow2 (fl_exp y)) \<le> round_even (y / pow2 (fl_exp y))"
    by (rule round_even_mono)
  then show ?thesis by (simp add: fl_pos_def True)
next
  case False
  let ?kx = "fl_exp x" and ?ky = "fl_exp y"
  from False fl_exp_mono [OF assms] have lt: "?kx < ?ky" by simp
  then have ky: "?ky = ilog2 y - 52" and ix: "ilog2 x + 1 \<le> ilog2 y"
    by (auto simp: fl_exp_def max_def split: if_splits)
  have "fl_pos x \<le> pow2 (ilog2 y)"
  proof -
    define n where "n = nat (ilog2 y - ?kx)"
    have n: "ilog2 y = int n + ?kx" using lt ky by (simp add: n_def)
    have "x \<le> pow2 (ilog2 y)"
      using ilog2_bounds(2) [OF assms(1)] pow2_mono [OF ix] by linarith
    then have "x / pow2 ?kx \<le> of_int (2 ^ n)"
      unfolding n pow2_add by (simp add: divide_le_eq pow2_def)
    then have "round_even (x / pow2 ?kx) \<le> round_even (of_int (2 ^ n))" by (rule round_even_mono)
    then have "of_int (round_even (x / pow2 ?kx)) \<le> (of_int (2 ^ n) :: rat)"
      by (simp only: round_even_of_int of_int_le_iff)
    then have "fl_pos x \<le> of_int (2 ^ n) * pow2 ?kx"
      unfolding fl_pos_def by (rule mult_right_mono) simp
    also have "\<dots> = pow2 (ilog2 y)" unfolding n pow2_add by (simp add: pow2_def)
    finally show ?thesis .
  qed
  also have "pow2 (ilog2 y) \<le> fl_pos y"
  proof -
    have y: "0 < y" using assms by linarith
    have iy: "pow2 (ilog2 y) = of_int (2 ^ 52) * pow2 ?ky"
      using pow2_add [of 52 ?ky] by (simp add: ky pow2_def [of 52])
    have "of_int (2 ^ 52) \<le> y / pow2 ?ky"
      using ilog2_bounds(1) [OF y] unfolding iy by (simp add: le_divide_eq)
    then have "round_even (of_int (2 ^ 52)) \<le> round_even (y / pow2 ?ky)" by (rule round_even_mono)
    then have "(of_int (2 ^ 52) :: rat) \<le> of_int (round_even (y / pow2 ?ky))"
      by (simp only: round_even_of_int of_int_le_iff)
    then show ?thesis unfolding iy fl_pos_def by (rule mult_right_mono) simp
  qed
  finally show ?thesis .
qed

lemma fl_pos_nonneg: "0 < x \<Longrightarrow> 0 \<le> fl_pos x"
proof -
  assume "0 < x"
  then have "round_even (of_int 0) \<le> round_even (x / pow2 (fl_exp x))"
    by (intro round_even_mono) simp
  then have "0 \<le> round_even (x / pow2 (fl_exp x))" by (simp only: round_even_of_int)
  then show ?thesis by (simp add: fl_pos_def)
qed

lemma fl64_mono: "x \<le> y \<Longrightarrow> fl64 x \<le> fl64 y"
  using fl_pos_mono [of x y] fl_pos_mono [of "- y" "- x"] fl_pos_nonneg [of y] fl_pos_nonneg [of "- x"]
  by (auto simp: fl64_def)

lemma is_float_fl_pos:
  assumes "0 < x"
  shows "is_float (fl_pos x)"
proof -
  let ?k = "fl_exp x"
  define m where "m = round_even (x / pow2 ?k)"
  have "x < pow2 (ilog2 x + 1)" using ilog2_bounds(2) [OF assms] .
  also have "\<dots> \<le> pow2 (53 + ?k)" by (rule pow2_mono) (simp add: fl_exp_def)
  finally have "x / pow2 ?k \<le> of_int (2 ^ 53)"
    unfolding pow2_add by (simp add: divide_le_eq pow2_def [of 53])
  then have "m \<le> round_even (of_int (2 ^ 53))" unfolding m_def by (rule round_even_mono)
  then have hi: "m \<le> 2 ^ 53" by (simp only: round_even_of_int)
  have "round_even (of_int 0) \<le> m"
    unfolding m_def using assms by (intro round_even_mono) simp
  then have lo: "0 \<le> m" by (simp only: round_even_of_int)
  have k: "- 1074 \<le> ?k" by (simp add: fl_exp_def)
  have eq: "fl_pos x = of_int m * pow2 ?k" by (simp add: fl_pos_def m_def)
  show ?thesis
  proof (cases "m = 2 ^ 53")
    case True
    have "fl_pos x = of_int (2 ^ 52) * pow2 (?k + 1)" unfolding eq True pow2_add by (simp add: pow2_def [of 1])
    with k show ?thesis unfolding is_float_def
      by (intro exI [of _ "2 ^ 52"] exI [of _ "?k + 1"]) simp
  next
    case False
    with lo hi k eq show ?thesis unfolding is_float_def
      by (intro exI [of _ m] exI [of _ ?k]) simp
  qed
qed

lemma is_float_0 [simp]: "is_float 0"
  unfolding is_float_def by (intro exI [of _ 0] exI [of _ 0]) simp

lemma is_float_minus: "is_float x \<Longrightarrow> is_float (- x)"
  unfolding is_float_def by (metis abs_minus_cancel mult_minus_left of_int_minus)

lemma is_float_fl64: "is_float (fl64 x)"
  using is_float_fl_pos [of x] is_float_minus [OF is_float_fl_pos [of "- x"]] by (auto simp: fl64_def)

lemma is_float_of_int:
  assumes "\<bar>n\<bar> \<le> 2 ^ 53"
  shows "is_float (of_int n)"
proof (cases "\<bar>n\<bar> = 2 ^ 53")
  case True
  then have "n = sgn n * 2 ^ 53" by (metis sgn_mult_abs)
  then have "of_int n = (of_int (sgn n * 2 ^ 52) * pow2 1 :: rat)" by (simp add: pow2_def)
  moreover have "\<bar>sgn n * 2 ^ 52\<bar> < (2 ^ 53 :: int)" by (simp add: abs_mult abs_sgn_eq)
  moreover have "- 1074 \<le> (1 :: int)" by simp
  ultimately show ?thesis unfolding is_float_def by blast
next
  case False
  with assms show ?thesis unfolding is_float_def by (intro exI [of _ n] exI [of _ 0]) simp
qed

lemma is_float_pred:
  assumes "is_float c" "1 \<le> c" "c \<le> 2 ^ 53"
  shows "is_float (c - 1)"
proof -
  obtain m k where c: "c = of_int m * pow2 k" and m: "\<bar>m\<bar> < 2 ^ 53" and k: "- 1074 \<le> k"
    using assms(1) by (auto simp: is_float_def)
  show ?thesis
  proof (cases "0 \<le> k")
    case True
    then have "c = of_int (m * 2 ^ nat k)" by (simp add: c pow2_nat)
    then have c': "c - 1 = of_int (m * 2 ^ nat k - 1)" by simp
    have "of_int 0 \<le> c - 1" "c - 1 \<le> of_int (2 ^ 53)" using assms by simp_all
    then have "0 \<le> m * 2 ^ nat k - 1" "m * 2 ^ nat k - 1 \<le> 2 ^ 53"
      unfolding c' by (simp_all only: of_int_le_iff)
    then have "\<bar>m * 2 ^ nat k - 1\<bar> \<le> 2 ^ 53" by linarith
    then show ?thesis unfolding c' by (rule is_float_of_int)
  next
    case False
    define j where "j = nat (- k)"
    have one: "(1 :: rat) = of_int (2 ^ j) * pow2 k" using False by (simp add: j_def pow2_def)
    then have c': "c - 1 = of_int (m - 2 ^ j) * pow2 k" by (simp add: c left_diff_distrib)
    have "0 \<le> c - 1" using assms by simp
    then have "0 \<le> m - 2 ^ j" unfolding c' using pow2_pos(1) [of k] by (simp add: zero_le_mult_iff not_le [symmetric] del: pow2_pos)
    moreover have "(0 :: int) < 2 ^ j" by simp
    ultimately have "\<bar>m - 2 ^ j\<bar> < 2 ^ 53" using m by linarith
    with c' k show ?thesis unfolding is_float_def by blast
  qed
qed

lemma fl_pos_upper:
  assumes "0 < x"
  shows "fl_pos x \<le> x * (1 + 1 / 2 ^ 53) + 1 / 2 ^ 100"
proof -
  let ?k = "fl_exp x"
  have "of_int (round_even (x / pow2 ?k)) \<le> x / pow2 ?k + 1 / 2"
    using round_even_error [of "x / pow2 ?k"] by linarith
  then have "fl_pos x \<le> (x / pow2 ?k + 1 / 2) * pow2 ?k"
    unfolding fl_pos_def by (rule mult_right_mono) simp
  moreover have "(x / pow2 ?k + 1 / 2) * pow2 ?k = x + pow2 ?k / 2" by (simp add: distrib_right)
  ultimately have half: "fl_pos x \<le> x + pow2 ?k / 2" by simp
  show ?thesis
  proof (cases "ilog2 x - 52 \<ge> - 1074")
    case True
    then have "pow2 ?k * 2 ^ 52 = pow2 (ilog2 x)"
      using pow2_add [of ?k 52] by (simp add: fl_exp_def pow2_def [of 52])
    then have "pow2 ?k * 2 ^ 52 \<le> x" using ilog2_bounds(1) [OF assms] by simp
    with half show ?thesis by (simp add: field_simps)
  next
    case False
    then have "?k \<le> - 100" by (simp add: fl_exp_def)
    then have "pow2 ?k \<le> pow2 (- 100)" by (rule pow2_mono)
    with half assms show ?thesis by (simp add: pow2_def field_simps)
  qed
qed

section \<open>What the program relies on\<close>

lemma square_step: "(y * (1 + u) + h) * (1 + u) + h = y * (1 + u) ^ 2 + (h * (1 + u) + h)"
  for y u h :: rat
  by (simp add: power2_eq_square algebra_simps)

lemma cube_step:
  "(s * (1 + u) ^ 2 + 3 * h) * r * (1 + u) + h = s * r * (1 + u) ^ 3 + 3 * h * r * (1 + u) + h"
  for s u h r :: rat
  by (simp add: power3_eq_cube power2_eq_square algebra_simps)

lemma fourth_step:
  "cur + cur * u + (s * r * (1 + u) ^ 3 + 3 * h * r * (1 + u) + h) * (1 + u) + h =
   cur + cur * u + s * r * (1 + u) ^ 4 + (3 * h * (1 + u) ^ 2 * r + h * (2 + u))"
  for cur s u h r :: rat
  by (simp add: power4_eq_xxxx power3_eq_cube power2_eq_square algebra_simps)

locale float_rounding =
  fixes rnd :: "rat \<Rightarrow> rat"
  assumes rnd_mono: "x \<le> y \<Longrightarrow> rnd x \<le> rnd y"
    and rnd_idem: "rnd (rnd x) = rnd x"
    and rnd_int: "\<bar>n\<bar> \<le> 2 ^ 53 \<Longrightarrow> rnd (of_int n) = of_int n"
    and rnd_pred: "rnd c = c \<Longrightarrow> 1 \<le> c \<Longrightarrow> c \<le> 2 ^ 53 \<Longrightarrow> rnd (c - 1) = c - 1"
    and rnd_upper: "0 \<le> x \<Longrightarrow> rnd x \<le> x * (1 + 1 / 2 ^ 53) + 1 / 2 ^ 100"
begin

lemma rnd_0 [simp]: "rnd 0 = 0"
  using rnd_int [of 0] by simp

lemma rnd_nonneg: "0 \<le> x \<Longrightarrow> 0 \<le> rnd x"
  using rnd_mono [of 0 x] by simp

text \<open>One refill: a duration of \<open>sec\<close> seconds and \<open>nsec\<close> nanoseconds, turned into seconds, times a rate.\<close>

lemma seconds_upper:
  assumes "0 \<le> sec" "sec \<le> 2 ^ 53" "0 \<le> nsec" "nsec < 10 ^ 9"
  shows "rnd (rnd (of_int sec) + rnd (rnd (of_int nsec) / 10 ^ 9))
    \<le> (of_int sec + of_int nsec / 10 ^ 9) * (1 + 1 / 2 ^ 53) ^ 2 + 3 / 2 ^ 100"
proof -
  let ?u = "1 / 2 ^ 53 :: rat" and ?h = "1 / 2 ^ 100 :: rat"
  define s where "s = (of_int sec :: rat)"
  define f where "f = (of_int nsec / 10 ^ 9 :: rat)"
  have s: "0 \<le> s" "rnd s = s" using assms rnd_int [of sec] by (simp_all add: s_def)
  have f: "0 \<le> f" "rnd (of_int nsec) / 10 ^ 9 = f" using assms rnd_int [of nsec] by (simp_all add: f_def)
  have "rnd f \<le> f * (1 + ?u) + ?h" using f(1) by (rule rnd_upper)
  also have "s + \<dots> \<le> (s + f) * (1 + ?u) + ?h" using s(1) by (simp add: field_simps)
  finally have inner: "s + rnd f \<le> (s + f) * (1 + ?u) + ?h" by simp
  have "rnd (s + rnd f) \<le> (s + rnd f) * (1 + ?u) + ?h"
    using s(1) rnd_nonneg [OF f(1)] by (intro rnd_upper) simp
  also have "\<dots> \<le> ((s + f) * (1 + ?u) + ?h) * (1 + ?u) + ?h"
    using mult_right_mono [OF inner, of "1 + ?u"] by simp
  also have "\<dots> = (s + f) * (1 + ?u) ^ 2 + (?h * (1 + ?u) + ?h)"
    by (rule square_step)
  also have "\<dots> \<le> (s + f) * (1 + ?u) ^ 2 + 3 / 2 ^ 100" by (rule add_left_mono) simp
  finally show ?thesis unfolding s_def [symmetric] s f f_def [symmetric] .
qed

lemma refill_upper:
  assumes "0 \<le> secs" "secs \<le> s * (1 + 1 / 2 ^ 53) ^ 2 + 3 / 2 ^ 100" and "0 \<le> s"
    and "0 \<le> rate" and "0 \<le> cur" "cur \<le> cap"
  shows "rnd (cur + rnd (secs * rate))
    \<le> cur + s * rate * (1 + 1 / 2 ^ 50) + (cap / 2 ^ 53 + (rate + 1) / 2 ^ 96)"
proof -
  let ?u = "1 / 2 ^ 53 :: rat" and ?h = "1 / 2 ^ 100 :: rat"
  have "rnd (secs * rate) \<le> secs * rate * (1 + ?u) + ?h"
    using assms by (intro rnd_upper) simp
  also have "\<dots> \<le> (s * (1 + ?u) ^ 2 + 3 * ?h) * rate * (1 + ?u) + ?h"
    using mult_right_mono [OF assms(2), of "rate * (1 + ?u)"] assms(4) by (simp add: mult.assoc)
  also have "\<dots> = s * rate * (1 + ?u) ^ 3 + 3 * ?h * rate * (1 + ?u) + ?h" by (rule cube_step)
  finally have g: "rnd (secs * rate) \<le> s * rate * (1 + ?u) ^ 3 + 3 * ?h * rate * (1 + ?u) + ?h" .
  have nn: "0 \<le> rnd (secs * rate)" using assms by (intro rnd_nonneg) simp
  have "rnd (cur + rnd (secs * rate)) \<le> (cur + rnd (secs * rate)) * (1 + ?u) + ?h"
    using assms nn by (intro rnd_upper) simp
  also have "\<dots> \<le> cur + cur * ?u + (s * rate * (1 + ?u) ^ 3 + 3 * ?h * rate * (1 + ?u) + ?h) * (1 + ?u) + ?h"
  proof -
    have "(cur + rnd (secs * rate)) * (1 + ?u) = cur + cur * ?u + rnd (secs * rate) * (1 + ?u)"
      by (simp add: distrib_right)
    with mult_right_mono [OF g, of "1 + ?u"] show ?thesis by simp
  qed
  also have "\<dots> = cur + cur * ?u + s * rate * (1 + ?u) ^ 4 + (3 * ?h * (1 + ?u) ^ 2 * rate + ?h * (2 + ?u))"
    by (rule fourth_step)
  also have "\<dots> \<le> cur + cap * ?u + s * rate * (1 + 1 / 2 ^ 50) + (1 / 2 ^ 96 * rate + 1 / 2 ^ 96)"
  proof (intro add_mono order_refl)
    show "s * rate * (1 + ?u) ^ 4 \<le> s * rate * (1 + 1 / 2 ^ 50)"
      using assms by (intro mult_left_mono) (simp_all add: power4_eq_xxxx)
    show "3 * ?h * (1 + ?u) ^ 2 * rate \<le> 1 / 2 ^ 96 * rate"
      using assms by (intro mult_right_mono) (simp_all add: power2_eq_square)
    show "cur * ?u \<le> cap * ?u" using assms by (intro mult_right_mono) simp_all
    show "?h * (2 + ?u) \<le> 1 / 2 ^ 96" by simp
  qed
  finally show ?thesis by (simp add: add_divide_distrib)
qed

end

interpretation fl64: float_rounding fl64
proof
  fix x y c :: rat and n :: int
  show "x \<le> y \<Longrightarrow> fl64 x \<le> fl64 y" by (rule fl64_mono)
  show "fl64 (fl64 x) = fl64 x" by (rule fl64_float [OF is_float_fl64])
  show "\<bar>n\<bar> \<le> 2 ^ 53 \<Longrightarrow> fl64 (of_int n) = of_int n" by (rule fl64_float [OF is_float_of_int])
  show "fl64 (c - 1) = c - 1" if "fl64 c = c" "1 \<le> c" "c \<le> 2 ^ 53"
  proof -
    have "is_float c" using is_float_fl64 [of c] that(1) by simp
    with that show ?thesis by (intro fl64_float is_float_pred)
  qed
  show "fl64 x \<le> x * (1 + 1 / 2 ^ 53) + 1 / 2 ^ 100" if "0 \<le> x"
    using that fl_pos_upper [of x] by (cases "x = 0") (auto simp: fl64_def)
qed

end
