(* ===== verification/RateLimiter.thy ===== *)
theory RateLimiter
  imports GoFloat Http
begin

text \<open>
  The token bucket of \<open>go-sniffer/internal/api/rate_limiter.go\<close>, in floating point as the code has
  it. \<open>Allow\<close> holds the mutex for its whole body, so a run of the limiter is a sequence of calls;
  each call reads the clock twice, once for \<open>time.Since\<close> and once for \<open>time.Now\<close>.
\<close>

section \<open>The code\<close>

record rateLimiter =
  maxToken :: rat
  currentToken :: rat
  rateLimit :: rat
  lastUpdate :: nanos

definition NewRateLimit :: "rat \<Rightarrow> rat \<Rightarrow> nanos \<Rightarrow> rateLimiter" where
  "NewRateLimit maxT rate now =
     \<lparr>maxToken = maxT, currentToken = maxT, rateLimit = rate, lastUpdate = now\<rparr>"

text \<open>\<open>time.Duration.Seconds\<close>.\<close>

definition Duration_Seconds :: "nanos \<Rightarrow> rat" where
  "Duration_Seconds d =
     fl64 (fl64 (of_int (go_div d Second)) + fl64 (fl64 (of_int (go_mod d Second)) / 10 ^ 9))"

definition Allow :: "nanos \<Rightarrow> nanos \<Rightarrow> rateLimiter \<Rightarrow> bool \<times> rateLimiter" where
  "Allow t1 t2 r =
     (let cur = fl64 (currentToken r + fl64 (Duration_Seconds (t1 - lastUpdate r) * rateLimit r));
          r1 = r\<lparr>currentToken := cur, lastUpdate := t2\<rparr>;
          r2 = (if currentToken r1 > maxToken r1 then r1\<lparr>currentToken := maxToken r1\<rparr> else r1)
      in if currentToken r2 < 1 then (False, r2)
         else (True, r2\<lparr>currentToken := fl64 (currentToken r2 - 1)\<rparr>))"

datatype 'b limited = RateLimited | Served 'b

definition RateLimit_Middleware ::
  "('s \<Rightarrow> 'b ResponseWriter \<times> 's) \<Rightarrow> nanos \<Rightarrow> nanos \<Rightarrow> rateLimiter \<times> 's \<Rightarrow>
   'b limited ResponseWriter \<times> rateLimiter \<times> 's"
where
  "RateLimit_Middleware nxt t1 t2 st =
     (case st of (r, s) \<Rightarrow>
        (case Allow t1 t2 r of
           (False, r') \<Rightarrow> (http_Error RateLimited 429 new_writer, r', s)
         | (True, r') \<Rightarrow>
             (case nxt s of (w, s') \<Rightarrow>
                (\<lparr>wstatus = wstatus w, wctype = wctype w, wbody = map Served (wbody w)\<rparr>, r', s'))))"

fun allow_all :: "(nanos \<times> nanos) list \<Rightarrow> rateLimiter \<Rightarrow> bool list \<times> rateLimiter" where
  "allow_all [] r = ([], r)"
| "allow_all ((t1, t2) # ts) r =
     (let (ok, r1) = Allow t1 t2 r; (oks, r2) = allow_all ts r1 in (ok # oks, r2))"

text \<open>Clock readings that do not run backwards, with gaps a \<open>time.Duration\<close> can hold.\<close>

fun clock_from :: "nanos \<Rightarrow> (nanos \<times> nanos) list \<Rightarrow> bool" where
  "clock_from t0 [] = True"
| "clock_from t0 ((t1, t2) # ts) = (t0 \<le> t1 \<and> t1 \<le> t2 \<and> t1 - t0 < 2 ^ 63 \<and> clock_from t2 ts)"

section \<open>The bucket's invariant\<close>

definition bucket_ok :: "rateLimiter \<Rightarrow> bool" where
  "bucket_ok r \<longleftrightarrow>
     0 \<le> currentToken r \<and> currentToken r \<le> maxToken r \<and> maxToken r \<le> 2 ^ 53 \<and> 0 \<le> rateLimit r \<and>
     fl64 (currentToken r) = currentToken r \<and> fl64 (maxToken r) = maxToken r"

lemma Duration_Seconds_nonneg: "0 \<le> d \<Longrightarrow> 0 \<le> Duration_Seconds d"
  unfolding Duration_Seconds_def
  by (intro fl64.rnd_nonneg add_nonneg_nonneg divide_nonneg_nonneg)
    (simp_all add: go_div_nonneg go_mod_nonneg pos_imp_zdiv_nonneg_iff)

lemma Duration_Seconds_0 [simp]: "Duration_Seconds 0 = 0"
  by (simp add: Duration_Seconds_def go_div_def go_mod_def)

lemma Duration_Seconds_upper:
  assumes "0 \<le> d" "d < 2 ^ 63"
  shows "Duration_Seconds d \<le> of_int d / 10 ^ 9 * (1 + 1 / 2 ^ 53) ^ 2 + 3 / 2 ^ 100"
proof -
  have "d div Second \<le> 2 ^ 53" "0 \<le> d div Second" using assms by auto
  moreover have "(of_int (d div Second) + of_int (d mod Second) / 10 ^ 9 :: rat) = of_int d / 10 ^ 9"
  proof -
    have "(of_int d :: rat) = of_int (d div Second * Second + d mod Second)" by simp
    then have "(of_int d :: rat) = of_int (d div Second) * 10 ^ 9 + of_int (d mod Second)"
      by (simp only: of_int_add of_int_mult) simp
    then show ?thesis by (simp only: add_divide_distrib) simp
  qed
  ultimately show ?thesis
    using fl64.seconds_upper [of "d div Second" "d mod Second"] assms
    by (simp only: Duration_Seconds_def go_div_nonneg go_mod_nonneg) simp
qed

lemma Duration_Seconds_lower: "Second \<le> d \<Longrightarrow> d < 2 ^ 63 \<Longrightarrow> 1 \<le> Duration_Seconds d"
proof -
  assume d: "Second \<le> d" "d < 2 ^ 63"
  then have sec: "1 \<le> d div Second" "d div Second \<le> 2 ^ 53" by auto
  then have "fl64 (of_int (d div Second)) = of_int (d div Second)" by (intro fl64.rnd_int) simp
  moreover have "0 \<le> fl64 (fl64 (of_int (d mod Second)) / 10 ^ 9)"
    by (intro fl64.rnd_nonneg divide_nonneg_nonneg) simp_all
  moreover have "(of_int 1 :: rat) \<le> of_int (d div Second)" using sec by (simp only: of_int_le_iff)
  ultimately have "fl64 (of_int 1) \<le> Duration_Seconds d"
    unfolding Duration_Seconds_def using d
    by (intro fl64.rnd_mono) (simp add: go_div_nonneg go_mod_nonneg)
  then show ?thesis using fl64.rnd_int [of 1] by simp
qed

text \<open>The number of tokens after the refill and the cap, before a token is taken.\<close>

definition refilled :: "nanos \<Rightarrow> rateLimiter \<Rightarrow> rat" where
  "refilled t1 r =
     min (maxToken r)
       (fl64 (currentToken r + fl64 (Duration_Seconds (t1 - lastUpdate r) * rateLimit r)))"

lemma Allow_eq:
  "Allow t1 t2 r =
     (if refilled t1 r < 1 then (False, r\<lparr>currentToken := refilled t1 r, lastUpdate := t2\<rparr>)
      else (True, r\<lparr>currentToken := fl64 (refilled t1 r - 1), lastUpdate := t2\<rparr>))"
  by (auto simp: Allow_def refilled_def Let_def min_def)

lemma refilled_ok:
  assumes "bucket_ok r" "lastUpdate r \<le> t1"
  shows "0 \<le> refilled t1 r" "refilled t1 r \<le> maxToken r" "fl64 (refilled t1 r) = refilled t1 r"
proof -
  have "0 \<le> fl64 (currentToken r + fl64 (Duration_Seconds (t1 - lastUpdate r) * rateLimit r))"
    using assms
    by (intro fl64.rnd_nonneg add_nonneg_nonneg mult_nonneg_nonneg Duration_Seconds_nonneg)
      (auto simp: bucket_ok_def)
  then show "0 \<le> refilled t1 r" using assms by (simp add: refilled_def bucket_ok_def)
  show "refilled t1 r \<le> maxToken r" by (simp add: refilled_def)
  show "fl64 (refilled t1 r) = refilled t1 r"
    using assms(1) fl64.rnd_idem by (auto simp: refilled_def bucket_ok_def min_def)
qed

lemma take_token:
  assumes "bucket_ok r" "lastUpdate r \<le> t1" "1 \<le> refilled t1 r"
  shows "fl64 (refilled t1 r - 1) = refilled t1 r - 1"
  using refilled_ok [OF assms(1,2)] assms by (intro fl64.rnd_pred) (auto simp: bucket_ok_def)

lemma Allow_step:
  assumes "bucket_ok r" "lastUpdate r \<le> t1" and "Allow t1 t2 r = (ok, r')"
  shows "bucket_ok r'" and "lastUpdate r' = t2" and "maxToken r' = maxToken r"
    and "rateLimit r' = rateLimit r"
    and "currentToken r' + (if ok then 1 else 0) = refilled t1 r"
    and "ok \<longleftrightarrow> 1 \<le> refilled t1 r"
  using assms refilled_ok [OF assms(1,2)] take_token [OF assms(1,2)]
  by (auto simp: Allow_eq bucket_ok_def split: if_splits)

lemma refilled_upper:
  assumes "bucket_ok r" "lastUpdate r \<le> t1" "t1 - lastUpdate r < 2 ^ 63"
  shows "refilled t1 r \<le> currentToken r
    + of_int (t1 - lastUpdate r) / 10 ^ 9 * rateLimit r * (1 + 1 / 2 ^ 50)
    + (maxToken r / 2 ^ 53 + (rateLimit r + 1) / 2 ^ 96)"
proof -
  have "fl64 (currentToken r + fl64 (Duration_Seconds (t1 - lastUpdate r) * rateLimit r)) \<le> currentToken r
    + of_int (t1 - lastUpdate r) / 10 ^ 9 * rateLimit r * (1 + 1 / 2 ^ 50)
    + (maxToken r / 2 ^ 53 + (rateLimit r + 1) / 2 ^ 96)"
    by (rule fl64.refill_upper [OF Duration_Seconds_nonneg Duration_Seconds_upper])
      (use assms in \<open>auto simp: bucket_ok_def\<close>)
  then show ?thesis by (simp add: refilled_def)
qed

section \<open>Runs\<close>

lemma allow_all_ok:
  assumes "bucket_ok r" "clock_from (lastUpdate r) ts" "allow_all ts r = (oks, r')"
  shows "bucket_ok r' \<and> maxToken r' = maxToken r \<and> rateLimit r' = rateLimit r \<and>
    lastUpdate r \<le> lastUpdate r' \<and> length oks = length ts"
  using assms
proof (induction ts arbitrary: r oks)
  case Nil
  then show ?case by simp
next
  case (Cons t ts)
  obtain t1 t2 where t: "t = (t1, t2)" by fastforce
  obtain ok r1 where a: "Allow t1 t2 r = (ok, r1)" by fastforce
  obtain oks' where rest: "allow_all ts r1 = (oks', r')" and oks: "oks = ok # oks'"
    using Cons.prems(3) a by (auto simp: t split: prod.splits)
  have clock: "lastUpdate r \<le> t1" "t1 \<le> t2" "clock_from t2 ts" using Cons.prems(2) by (auto simp: t)
  note step = Allow_step [OF Cons.prems(1) clock(1) a]
  from Cons.IH [OF step(1) _ rest] clock step oks show ?case by auto
qed

lemma allow_all_bound:
  assumes "bucket_ok r" "clock_from (lastUpdate r) ts" "allow_all ts r = (oks, r')"
  shows "of_nat (length (filter (\<lambda>b. b) oks)) + currentToken r' \<le> currentToken r
    + of_int (lastUpdate r' - lastUpdate r) / 10 ^ 9 * rateLimit r * (1 + 1 / 2 ^ 50)
    + of_nat (length ts) * (maxToken r / 2 ^ 53 + (rateLimit r + 1) / 2 ^ 96)"
  using assms
proof (induction ts arbitrary: r oks)
  case Nil
  then show ?case by simp
next
  case (Cons t ts)
  obtain t1 t2 where t: "t = (t1, t2)" by fastforce
  obtain ok r1 where a: "Allow t1 t2 r = (ok, r1)" by fastforce
  obtain oks' where rest: "allow_all ts r1 = (oks', r')" and oks: "oks = ok # oks'"
    using Cons.prems(3) a by (auto simp: t split: prod.splits)
  have clock: "lastUpdate r \<le> t1" "t1 \<le> t2" "t1 - lastUpdate r < 2 ^ 63" "clock_from t2 ts"
    using Cons.prems(2) by (auto simp: t)
  note step = Allow_step [OF Cons.prems(1) clock(1) a]
  define e where "e = maxToken r / 2 ^ 53 + (rateLimit r + 1) / 2 ^ 96"
  define c where "c = rateLimit r * (1 + 1 / 2 ^ 50) / 10 ^ 9"
  have c: "of_int z / 10 ^ 9 * rateLimit r * (1 + 1 / 2 ^ 50) = of_int z * c" for z
    by (simp add: c_def)
  have "0 \<le> c" using Cons.prems(1) by (simp add: c_def bucket_ok_def)
  have "currentToken r1 + (if ok then 1 else 0) \<le> currentToken r + of_int (t1 - lastUpdate r) * c + e"
    using refilled_upper [OF Cons.prems(1) clock(1,3)] unfolding step(5) c e_def .
  moreover have "of_nat (length (filter (\<lambda>b. b) oks')) + currentToken r'
      \<le> currentToken r1 + of_int (lastUpdate r' - t2) * c + of_nat (length ts) * e"
    using Cons.IH [OF step(1) _ rest] clock(4) unfolding step(2-4) c e_def [symmetric] by simp
  moreover have "of_int (t1 - lastUpdate r) * c + of_int (lastUpdate r' - t2) * c
      \<le> of_int (lastUpdate r' - lastUpdate r) * c"
  proof -
    have "of_int (t1 - lastUpdate r + (lastUpdate r' - t2)) \<le> (of_int (lastUpdate r' - lastUpdate r) :: rat)"
      using clock(2) by (simp only: of_int_le_iff)
    from mult_right_mono [OF this \<open>0 \<le> c\<close>] show ?thesis by (simp only: of_int_add distrib_right)
  qed
  ultimately have "of_nat (length (filter (\<lambda>b. b) oks)) + currentToken r'
      \<le> currentToken r + of_int (lastUpdate r' - lastUpdate r) * c + of_nat (Suc (length ts)) * e"
    unfolding oks of_nat_Suc distrib_right by (cases ok) simp_all
  then show ?case unfolding c e_def [symmetric] by simp
qed

lemma bucket_ok_New:
  "0 \<le> m \<Longrightarrow> m \<le> 2 ^ 53 \<Longrightarrow> fl64 m = m \<Longrightarrow> 0 \<le> rate \<Longrightarrow> bucket_ok (NewRateLimit m rate t)"
  by (simp add: bucket_ok_def NewRateLimit_def)

lemma allow_all_burst:
  assumes "k \<le> 2 ^ 53" "0 \<le> rate"
    and r: "r = \<lparr>maxToken = m, currentToken = of_nat k, rateLimit = rate, lastUpdate = t\<rparr>"
    and m: "of_nat k \<le> m" "m \<le> 2 ^ 53" "fl64 m = m"
  shows "fst (allow_all (replicate n (t, t)) r) = map (\<lambda>i. i < k) [0..<n]"
  using assms
proof (induction n arbitrary: k r)
  case 0
  then show ?case by simp
next
  case (Suc n)
  have int: "fl64 (of_nat j) = of_nat j" if "j \<le> 2 ^ 53" for j
    using fl64.rnd_int [of "int j"] that by simp
  have refill: "refilled t r = of_nat k"
    using Suc.prems int [of k] by (simp add: refilled_def)
  have range: "map (\<lambda>i. i < k) [0..<Suc n] = (0 < k) # map (\<lambda>i. Suc i < k) [0..<n]"
    by (simp add: upt_conv_Cons map_Suc_upt [symmetric] del: upt_Suc)
  show ?case
  proof (cases k)
    case 0
    have "Allow t t r = (False, r)" using refill Suc.prems by (simp add: Allow_eq 0)
    moreover have "fst (allow_all (replicate n (t, t)) r) = map (\<lambda>i. i < 0) [0..<n]"
      using Suc.IH [of 0 r] Suc.prems by (simp add: 0)
    ultimately show ?thesis
      unfolding range by (auto simp: 0 split: prod.split simp del: upt_Suc)
  next
    case (Suc j)
    let ?r' = "r\<lparr>currentToken := of_nat j\<rparr>"
    have "Allow t t r = (True, ?r')"
      using refill Suc.prems int [of j] by (simp add: Allow_eq Suc)
    moreover have "fst (allow_all (replicate n (t, t)) ?r') = map (\<lambda>i. i < j) [0..<n]"
      using Suc.prems Suc by (intro Suc.IH) simp_all
    ultimately show ?thesis
      unfolding range by (auto simp: Suc split: prod.split simp del: upt_Suc)
  qed
qed

section \<open>The middleware\<close>

fun serve_all ::
  "('s \<Rightarrow> 'b ResponseWriter \<times> 's) \<Rightarrow> (nanos \<times> nanos) list \<Rightarrow> rateLimiter \<times> 's \<Rightarrow>
   'b limited ResponseWriter list \<times> rateLimiter \<times> 's"
where
  "serve_all nxt [] st = ([], st)"
| "serve_all nxt ((t1, t2) # ts) st =
     (let (w, st1) = RateLimit_Middleware nxt t1 t2 st; (ws, st2) = serve_all nxt ts st1 in (w # ws, st2))"

abbreviation admitted :: "bool list \<Rightarrow> nat" where
  "admitted oks \<equiv> length (filter (\<lambda>b. b) oks)"

lemma serve_all_allow_all:
  "allow_all ts r = (oks, r') \<Longrightarrow>
   \<exists>ws. serve_all nxt ts (r, s) = (ws, r', ((\<lambda>s. snd (nxt s)) ^^ admitted oks) s) \<and>
        length ws = length oks \<and>
        (\<forall>i < length ws. ws ! i = http_Error RateLimited 429 new_writer \<or> oks ! i) \<and>
        (\<forall>i < length ws. oks ! i \<longrightarrow> RateLimited \<notin> set (wbody (ws ! i)))"
proof (induction ts arbitrary: r oks s)
  case Nil
  then show ?case by simp
next
  case (Cons t ts)
  obtain t1 t2 where t: "t = (t1, t2)" by fastforce
  obtain ok r1 where a: "Allow t1 t2 r = (ok, r1)" by fastforce
  obtain oks' where rest: "allow_all ts r1 = (oks', r')" and oks: "oks = ok # oks'"
    using Cons.prems a by (auto simp: t split: prod.splits)
  define s1 where "s1 = (if ok then snd (nxt s) else s)"
  define w where "w = fst (RateLimit_Middleware nxt t1 t2 (r, s))"
  have w: "RateLimit_Middleware nxt t1 t2 (r, s) = (w, r1, s1)"
    and now: "w = http_Error RateLimited 429 new_writer \<or> ok" "ok \<longrightarrow> RateLimited \<notin> set (wbody w)"
    using a by (cases ok; cases "nxt s"; auto simp: RateLimit_Middleware_def s1_def w_def)+
  obtain ws where ws: "serve_all nxt ts (r1, s1) = (ws, r', ((\<lambda>s. snd (nxt s)) ^^ admitted oks') s1)"
    and len: "length ws = length oks'"
    and later: "\<forall>i < length ws. ws ! i = http_Error RateLimited 429 new_writer \<or> oks' ! i"
      "\<forall>i < length ws. oks' ! i \<longrightarrow> RateLimited \<notin> set (wbody (ws ! i))"
    using Cons.IH [OF rest] by blast
  have state: "((\<lambda>s. snd (nxt s)) ^^ admitted oks') s1 = ((\<lambda>s. snd (nxt s)) ^^ admitted oks) s"
    using funpow_swap1 [of "\<lambda>s. snd (nxt s)" "admitted oks'" s] by (simp add: oks s1_def)
  have "serve_all nxt (t # ts) (r, s) = (w # ws, r', ((\<lambda>s. snd (nxt s)) ^^ admitted oks) s)"
    by (simp add: t w ws state)
  moreover have "\<forall>i < length (w # ws). (w # ws) ! i = http_Error RateLimited 429 new_writer \<or> oks ! i"
    using now(1) later(1) by (auto simp: oks nth_Cons split: nat.split)
  moreover have "\<forall>i < length (w # ws). oks ! i \<longrightarrow> RateLimited \<notin> set (wbody ((w # ws) ! i))"
    using now(2) later(2) by (auto simp: oks nth_Cons split: nat.split)
  ultimately show ?case using len oks by (intro exI [of _ "w # ws"]) simp
qed

section \<open>Properties\<close>

text \<open>
  C25: However the requests arrive, the number of calls that \<open>Allow\<close> admits during the
  first \<open>d\<close> nanoseconds after \<open>NewRateLimit\<close> is at most the bucket's size plus \<open>rate * d\<close>, up to
  the rounding of the double-precision arithmetic: a relative error of \<open>2^-50\<close> on the refill and
  an absolute error per call that is tiny against one token.
\<close>

theorem rate_limit_throughput:
  assumes "0 \<le> m" "m \<le> 2 ^ 53" "fl64 m = m" "0 \<le> rate" "clock_from t0 ts"
    and "allow_all ts (NewRateLimit m rate t0) = (oks, r')"
  shows "of_nat (admitted oks) \<le> m
    + of_int (lastUpdate r' - t0) / 10 ^ 9 * rate * (1 + 1 / 2 ^ 50)
    + of_nat (length ts) * (m / 2 ^ 53 + (rate + 1) / 2 ^ 96)"
proof -
  have ok: "bucket_ok (NewRateLimit m rate t0)" using assms by (intro bucket_ok_New)
  have clock: "clock_from (lastUpdate (NewRateLimit m rate t0)) ts"
    using assms by (simp add: NewRateLimit_def)
  have "0 \<le> currentToken r'" using allow_all_ok [OF ok clock assms(6)] by (simp add: bucket_ok_def)
  then show ?thesis
    using allow_all_bound [OF ok clock assms(6)] by (simp add: NewRateLimit_def)
qed

text \<open>
  C33: A burst: of \<open>n\<close> requests that arrive at the same instant at a fresh limiter with
  \<open>k\<close> tokens, the first \<open>k\<close> reach the handler and all the others are answered 429 without
  running it, whatever the refill rate.
\<close>

theorem rate_limit_burst:
  assumes "k \<le> 2 ^ 53" "0 \<le> rate"
  shows "\<exists>ws r'. serve_all nxt (replicate n (t, t)) (NewRateLimit (of_nat k) rate t, s)
      = (ws, r', ((\<lambda>s. snd (nxt s)) ^^ min n k) s) \<and> length ws = n \<and>
    (\<forall>i < n. ws ! i = http_Error RateLimited 429 new_writer \<longleftrightarrow> k \<le> i)"
proof -
  let ?r = "NewRateLimit (of_nat k) rate t"
  have "fl64 (of_nat k) = of_nat k" using fl64.rnd_int [of "int k"] assms(1) by simp
  moreover have "(of_nat k :: rat) \<le> 2 ^ 53"
    using assms(1) of_nat_le_iff [of k "2 ^ 53", where 'a = rat] by simp
  ultimately have "fst (allow_all (replicate n (t, t)) ?r) = map (\<lambda>i. i < k) [0..<n]"
    using assms by (intro allow_all_burst) (simp_all add: NewRateLimit_def)
  then obtain r' where all: "allow_all (replicate n (t, t)) ?r = (map (\<lambda>i. i < k) [0..<n], r')"
    by (metis prod.collapse)
  have count: "admitted (map (\<lambda>i. i < k) [0..<n]) = min n k"
    by (induction n) auto
  show ?thesis
    using serve_all_allow_all [OF all, of nxt s] unfolding count
    by (force simp: http_defs)
qed

text \<open>
  The bucket recovers: after any history of requests at a limiter that holds at least
  one token and refills at least one a second, a request that comes a second or more after the
  last one is admitted.
\<close>

theorem rate_limit_recovers:
  assumes "1 \<le> m" "m \<le> 2 ^ 53" "fl64 m = m" "1 \<le> rate" "clock_from t0 ts"
    and "allow_all ts (NewRateLimit m rate t0) = (oks, r)"
    and "lastUpdate r + Second \<le> t1" "t1 < lastUpdate r + 2 ^ 63"
  shows "fst (Allow t1 t2 r)"
proof -
  have "bucket_ok (NewRateLimit m rate t0)" using assms by (intro bucket_ok_New) simp_all
  from allow_all_ok [OF this _ assms(6)] assms(5)
  have r: "bucket_ok r" "maxToken r = m" "rateLimit r = rate" by (simp_all add: NewRateLimit_def)
  have one: "fl64 1 = 1" using fl64.rnd_int [of 1] by simp
  have secs: "1 \<le> Duration_Seconds (t1 - lastUpdate r)"
    using assms(7,8) by (intro Duration_Seconds_lower) simp_all
  then have "1 * 1 \<le> Duration_Seconds (t1 - lastUpdate r) * rate"
    using assms(4) by (intro mult_mono) simp_all
  then have "fl64 1 \<le> fl64 (Duration_Seconds (t1 - lastUpdate r) * rate)"
    by (intro fl64.rnd_mono) simp
  then have "1 \<le> currentToken r + fl64 (Duration_Seconds (t1 - lastUpdate r) * rate)"
    using r(1) one by (simp add: bucket_ok_def)
  then have "fl64 1 \<le> fl64 (currentToken r + fl64 (Duration_Seconds (t1 - lastUpdate r) * rate))"
    by (rule fl64.rnd_mono)
  then have "1 \<le> refilled t1 r" using assms(1) r(2,3) one by (simp add: refilled_def)
  then show ?thesis by (simp add: Allow_eq)
qed

section \<open>Witnesses\<close>

lemma fl64_10 [simp]: "fl64 10 = 10"
  using fl64.rnd_int [of 10] by simp

text \<open>The router's limiter, \<open>NewRateLimit(10.0, 10.0)\<close>.\<close>

lemma rate_limit_throughput_witness:
  "case allow_all [(0, 0), (Second, Second)] (NewRateLimit 10 10 0) of (oks, r') \<Rightarrow>
     of_nat (admitted oks) \<le> (10 :: rat) + of_int (lastUpdate r') / 10 ^ 9 * 10 * (1 + 1 / 2 ^ 50)
       + of_nat 2 * (10 / 2 ^ 53 + (10 + 1) / 2 ^ 96)"
proof (cases "allow_all [(0, 0), (Second, Second)] (NewRateLimit 10 10 0)")
  case (Pair oks r')
  have ts: "clock_from 0 [(0, 0), (Second, Second)]" by simp
  have "of_nat (admitted oks) \<le> (10 :: rat) + of_int (lastUpdate r' - 0) / 10 ^ 9 * 10 * (1 + 1 / 2 ^ 50)
       + of_nat (length [(0 :: int, 0 :: int), (Second, Second)]) * (10 / 2 ^ 53 + (10 + 1) / 2 ^ 96)"
    by (rule rate_limit_throughput [OF _ _ fl64_10 _ ts Pair]) simp_all
  then show ?thesis unfolding Pair by simp
qed

lemma rate_limit_burst_witness:
  "\<exists>ws r'. serve_all (\<lambda>s. (new_writer :: unit ResponseWriter, Suc s)) (replicate 12 (0, 0))
       (NewRateLimit (of_nat 10) 10 0, 0) = (ws, r', 10) \<and> length ws = 12 \<and>
     (\<forall>i < 12. ws ! i = http_Error RateLimited 429 new_writer \<longleftrightarrow> 10 \<le> i)"
  using rate_limit_burst [of 10 10 "\<lambda>s. (new_writer :: unit ResponseWriter, Suc s)" 12 0 0]
  by (simp add: Suc_funpow)

lemma rate_limit_recovers_witness: "fst (Allow Second Second (NewRateLimit 10 10 0))"
  using rate_limit_recovers [of 10 10 0 "[]" "[]" "NewRateLimit 10 10 0" Second Second]
  by (simp add: NewRateLimit_def)

end
