(* ===== verification/PcapReader.thy ===== *)
theory PcapReader
  imports Packet
begin

text \<open>
  The extraction of one capture file by go-sniffer's \<open>PcapWorker\<close>
  (\<open>go-sniffer/internal/worker/ingestion.go\<close>): opening it, decoding record after record with the
  worker's own copy of the decoder, and sending batches of 500 rows. The file system and
  \<open>pcapgo\<close> are what \<open>os.Open\<close>, \<open>NewReader\<close> and each \<open>ReadPacketData\<close> return.
\<close>

section \<open>The worker's copy of the decoder\<close>

record CaptureInfo =
  Timestamp :: nanos
  CLength :: "64 word"

definition worker_packetFlagsToUint8 :: "TCP \<Rightarrow> 8 word" where
  "worker_packetFlagsToUint8 tcp =
     (let mask = 0;
          mask = (if SYN tcp then mask OR push_bit 1 1 else mask);
          mask = (if ACK tcp then mask OR push_bit 4 1 else mask);
          mask = (if FIN tcp then mask OR push_bit 0 1 else mask);
          mask = (if RST tcp then mask OR push_bit 2 1 else mask);
          mask = (if PSH tcp then mask OR push_bit 3 1 else mask);
          mask = (if URG tcp then mask OR push_bit 5 1 else mask)
      in mask)"

definition worker_row :: "(8 word \<Rightarrow> string) \<Rightarrow> UUID \<Rightarrow> CaptureInfo \<Rightarrow> gopacket \<Rightarrow> PacketRow option" where
  "worker_row proto_String jobID captureInfo p =
     (case
        (case layerIPv4 p of
           Some ip \<Rightarrow>
             (case (to_array 4 (SrcIP4 ip), to_array 4 (DstIP4 ip)) of
                (Some s, Some d) \<Rightarrow> Some (proto_String (Protocol4 ip), Addr4 s, Addr4 d)
              | _ \<Rightarrow> None)
         | None \<Rightarrow>
             (case layerIPv6 p of
                Some ip \<Rightarrow>
                  (case (to_array 16 (SrcIP6 ip), to_array 16 (DstIP6 ip)) of
                     (Some s, Some d) \<Rightarrow> Some (proto_String (NextHeader ip), Addr16 s, Addr16 d)
                   | _ \<Rightarrow> None)
              | None \<Rightarrow> Some ('''', AddrZero, AddrZero)))
      of None \<Rightarrow> None
       | Some (protocol, srcIP, dstIP) \<Rightarrow>
           (let (srcPort, dstPort, tcpFlags) =
              (case layerTCP p of
                 Some tcp \<Rightarrow> (ucast (TSrcPort tcp), ucast (TDstPort tcp),
                             ucast (worker_packetFlagsToUint8 tcp))
               | None \<Rightarrow>
                   (case layerUDP p of
                      Some udp \<Rightarrow> (ucast (USrcPort udp), ucast (UDstPort udp), 0)
                    | None \<Rightarrow> (0, 0, 0)))
            in Some \<lparr>Time = Timestamp captureInfo, SrcIP = srcIP, DstIP = dstIP, SrcPort = srcPort,
                     DstPort = dstPort, Protocol = protocol, PLength = ucast (CLength captureInfo),
                     TCPFlags = tcpFlags, SourceID = jobID\<rparr>))"

section \<open>Reading a file\<close>

fun Contains :: "string \<Rightarrow> string \<Rightarrow> bool" where
  "Contains sub [] \<longleftrightarrow> sub = []"
| "Contains sub (c # cs) \<longleftrightarrow> take (length sub) (c # cs) = sub \<or> Contains sub cs"

text \<open>What one call of \<open>ReadPacketData\<close> returns; after the last listed result it returns \<open>io.EOF\<close>.\<close>

datatype read_result = ReadOk CaptureInfo gopacket | ReadEOF | ReadErr string

datatype pcap_file = OpenError string | BadHeader string | Records "read_result list"

datatype file_result = FileDone | FileError string | FileCancelled | FilePanic

definition batchLimit :: nat where "batchLimit = 500"

text \<open>
  The loop over the records. The state is the current batch, the batches already sent, the amount
  added to \<open>totalRead\<close>, and the number of \<open>select\<close>s executed; \<open>done k\<close> says that the \<open>k\<close>-th
  \<open>select\<close> takes its \<open>ctx.Done()\<close> branch. The result is that of the anonymous function.
\<close>

record extraction =
  currentBatch :: "PacketRow list"
  sent :: "PacketRow list list"
  totalRead :: nat
  selects :: nat

definition send_batch :: "extraction \<Rightarrow> extraction" where
  "send_batch st =
     st\<lparr>currentBatch := [], sent := sent st @ [currentBatch st],
       totalRead := totalRead st + length (currentBatch st), selects := Suc (selects st)\<rparr>"

definition finish_file :: "(nat \<Rightarrow> bool) \<Rightarrow> extraction \<Rightarrow> file_result \<times> extraction" where
  "finish_file cancelled st =
     (if currentBatch st \<noteq> []
      then (if cancelled (selects st) then (FileCancelled, st) else (FileDone, send_batch st))
      else (FileDone, st))"

fun read_loop ::
  "(8 word \<Rightarrow> string) \<Rightarrow> UUID \<Rightarrow> (nat \<Rightarrow> bool) \<Rightarrow> read_result list \<Rightarrow> extraction \<Rightarrow>
   file_result \<times> extraction"
where
  "read_loop pS jobID cancelled rs st =
     (if currentBatch st = [] \<and> cancelled (selects st) then (FileCancelled, st)
      else
        (let st = (if currentBatch st = [] then st\<lparr>selects := Suc (selects st)\<rparr> else st) in
         case rs of
           [] \<Rightarrow> finish_file cancelled st
         | ReadEOF # _ \<Rightarrow> finish_file cancelled st
         | ReadErr e # rs' \<Rightarrow>
             (if Contains ''EOF'' e then finish_file cancelled st
              else read_loop pS jobID cancelled rs' st)
         | ReadOk ci p # rs' \<Rightarrow>
             (case worker_row pS jobID ci p of
                None \<Rightarrow> (FilePanic, st)
              | Some row \<Rightarrow>
                  (let st = st\<lparr>currentBatch := currentBatch st @ [row]\<rparr> in
                   if length (currentBatch st) \<ge> batchLimit
                   then (if cancelled (selects st) then (FileCancelled, st)
                         else read_loop pS jobID cancelled rs' (send_batch st))
                   else read_loop pS jobID cancelled rs' st))))"

declare read_loop.simps [simp del]

definition extract_file ::
  "(8 word \<Rightarrow> string) \<Rightarrow> UUID \<Rightarrow> (nat \<Rightarrow> bool) \<Rightarrow> pcap_file \<Rightarrow> file_result \<times> extraction"
where
  "extract_file pS jobID cancelled f =
     (let start = \<lparr>currentBatch = [], sent = [], totalRead = 0, selects = 0\<rparr> in
      case f of
        OpenError e \<Rightarrow> (FileError e, start)
      | BadHeader e \<Rightarrow> (FileError e, start)
      | Records rs \<Rightarrow> read_loop pS jobID cancelled rs start)"

section \<open>What a file contains\<close>

text \<open>The rows of the records before the end of the file, unreadable records left out.\<close>

fun file_rows :: "(8 word \<Rightarrow> string) \<Rightarrow> UUID \<Rightarrow> read_result list \<Rightarrow> PacketRow list option" where
  "file_rows pS u [] = Some []"
| "file_rows pS u (ReadEOF # rs) = Some []"
| "file_rows pS u (ReadErr e # rs) = (if Contains ''EOF'' e then Some [] else file_rows pS u rs)"
| "file_rows pS u (ReadOk ci p # rs) =
     (case (PacketDecoder pS u (p\<lparr>ci_Timestamp := Timestamp ci, ci_Length := CLength ci\<rparr>),
            file_rows pS u rs) of
        (Some r, Some rows) \<Rightarrow> Some (r # rows)
      | _ \<Rightarrow> None)"

text \<open>Cutting a list into pieces of \<open>n\<close> elements, the last one possibly shorter.\<close>

function chunks :: "nat \<Rightarrow> 'a list \<Rightarrow> 'a list list" where
  "chunks n xs = (if n = 0 \<or> xs = [] then [] else take n xs # chunks n (drop n xs))"
  by pat_completeness auto

termination
  by (relation "measure (\<lambda>(n, xs). length xs)") auto

declare chunks.simps [simp del]

lemma chunks_Nil [simp]: "chunks n [] = []"
  by (simp add: chunks.simps)

lemma concat_chunks: "0 < n \<Longrightarrow> concat (chunks n xs) = xs"
proof (induction n xs rule: chunks.induct)
  case (1 n xs)
  then show ?case by (subst chunks.simps) auto
qed

lemma chunks_small: "xs \<noteq> [] \<Longrightarrow> length xs \<le> n \<Longrightarrow> chunks n xs = [xs]"
  by (subst chunks.simps) (cases xs; auto)

lemma chunks_append: "length xs = n \<Longrightarrow> 0 < n \<Longrightarrow> chunks n (xs @ ys) = xs # chunks n ys"
  by (subst chunks.simps) auto

lemma chunks_lengths:
  "0 < n \<Longrightarrow> b \<in> set (chunks n xs) \<Longrightarrow> b \<noteq> [] \<and> length b \<le> n"
proof (induction n xs rule: chunks.induct)
  case (1 n xs)
  then show ?case by (subst (asm) chunks.simps) (auto split: if_splits)
qed

section \<open>The two decoders agree\<close>

lemma worker_flags: "worker_packetFlagsToUint8 tcp = packetFlagsToUint8 tcp"
  by (simp only: worker_packetFlagsToUint8_def packetFlagsToUint8_def)

lemma worker_row_eq:
  "worker_row pS u ci p =
     PacketDecoder pS u (p\<lparr>ci_Timestamp := Timestamp ci, ci_Length := CLength ci\<rparr>)"
  unfolding worker_row_def PacketDecoder_def decode_network_def decode_transport_def worker_flags
  by (simp split: option.split)

lemma file_rows_prefix:
  "file_rows pS u (ReadOk ci p # rs) = Some rows \<Longrightarrow>
   \<exists>r rest. worker_row pS u ci p = Some r \<and> file_rows pS u rs = Some rest \<and> rows = r # rest"
  by (auto simp: worker_row_eq split: option.splits)

section \<open>The loop sends the file in chunks\<close>

text \<open>
  The run from a state with an unfinished batch: what is sent is a prefix of the chunks of the
  unfinished batch followed by the rest of the file, all of them when no \<open>select\<close> is cancelled.
\<close>

definition sends :: "(nat \<Rightarrow> bool) \<Rightarrow> PacketRow list list \<Rightarrow> extraction \<Rightarrow> file_result \<times> extraction \<Rightarrow> bool"
where
  "sends cancelled bs st out \<longleftrightarrow>
     (\<exists>n. sent (snd out) = sent st @ take n bs \<and>
        totalRead (snd out) = totalRead st + length (concat (take n bs)) \<and>
        (fst out = FileDone \<and> n = length bs \<or> fst out = FileCancelled \<and> (\<exists>k. cancelled k)))"

lemma sends_cancelled: "cancelled k \<Longrightarrow> sends cancelled bs st (FileCancelled, st)"
  by (auto simp: sends_def intro: exI [of _ 0])

lemma sends_select [simp]:
  "sends cancelled bs (st\<lparr>selects := k\<rparr>) out = sends cancelled bs st out"
  "sends cancelled bs (st\<lparr>currentBatch := b\<rparr>) out = sends cancelled bs st out"
  by (simp_all add: sends_def)

lemma sends_send_batch:
  "sends cancelled bs (send_batch st) out \<Longrightarrow> sends cancelled (currentBatch st # bs) st out"
  unfolding sends_def
  by (elim exE, rule_tac x = "Suc n" in exI) (auto simp: send_batch_def)

lemma sends_finish:
  "length (currentBatch st) < batchLimit \<Longrightarrow>
   sends cancelled (chunks batchLimit (currentBatch st)) st (finish_file cancelled st)"
  by (cases "currentBatch st = []")
    (auto simp: finish_file_def sends_def send_batch_def chunks_small
      intro: exI [of _ 0] exI [of _ "Suc 0"])

lemma read_loop_sends:
  assumes "file_rows pS u rs = Some rows" "length (currentBatch st) < batchLimit"
  shows "sends cancelled (chunks batchLimit (currentBatch st @ rows)) st
    (read_loop pS u cancelled rs st)"
  using assms
proof (induction rs arbitrary: st rows)
  case Nil
  then show ?case
    using sends_finish [of st cancelled] sends_finish [of "st\<lparr>selects := Suc (selects st)\<rparr>" cancelled]
    by (auto simp: read_loop.simps [of pS u cancelled "[]" st] sends_cancelled Let_def)
next
  case (Cons r rs)
  define st1 where
    "st1 = (if currentBatch st = [] then st\<lparr>selects := Suc (selects st)\<rparr> else st)"
  have st1: "currentBatch st1 = currentBatch st"
    "\<And>bs out. sends cancelled bs st1 out = sends cancelled bs st out"
    by (simp_all add: st1_def)
  have short: "length (currentBatch st1) < batchLimit" using Cons.prems(2) st1(1) by simp
  note finish = sends_finish [OF short, of cancelled, unfolded st1]
  show ?case
  proof (cases "currentBatch st = [] \<and> cancelled (selects st)")
    case True
    then show ?thesis by (auto simp: read_loop.simps [of pS u cancelled "r # rs" st] intro: sends_cancelled)
  next
    case go: False
    note loop = read_loop.simps [of pS u cancelled "r # rs" st, folded st1_def]
    show ?thesis
    proof (cases r)
      case ReadEOF
      then show ?thesis using Cons.prems finish go by (auto simp: loop [unfolded ReadEOF] Let_def)
    next
      case (ReadErr e)
      then show ?thesis
        using Cons.prems finish go Cons.IH [of rows st1] short
        by (auto simp: loop [unfolded ReadErr] Let_def st1)
    next
      case (ReadOk ci p)
      obtain row rest where row: "worker_row pS u ci p = Some row"
        and rest: "file_rows pS u rs = Some rest" and rows: "rows = row # rest"
        using file_rows_prefix Cons.prems(1) unfolding ReadOk by blast
      define st2 where "st2 = st1\<lparr>currentBatch := currentBatch st @ [row]\<rparr>"
      have st2: "currentBatch st2 = currentBatch st @ [row]"
        "\<And>bs out. sends cancelled bs st2 out = sends cancelled bs st out"
        by (simp_all add: st2_def st1)
      show ?thesis
      proof (cases "batchLimit \<le> length (currentBatch st2)")
        case False
        then have "sends cancelled (chunks batchLimit (currentBatch st2 @ rest)) st2
            (read_loop pS u cancelled rs st2)"
          by (intro Cons.IH [OF rest]) simp
        then show ?thesis
          using go False by (auto simp: ReadOk loop [unfolded ReadOk] row rows Let_def st1 st2 st2_def [symmetric])
      next
        case full: True
        have len: "length (currentBatch st2) = batchLimit" using full short by (simp add: st2 st1)
        have "sends cancelled (chunks batchLimit rest) (send_batch st2)
            (read_loop pS u cancelled rs (send_batch st2))"
          using Cons.IH [OF rest, of "send_batch st2"] by (simp add: send_batch_def batchLimit_def)
        moreover have stop: "cancelled (selects st2) \<Longrightarrow> sends cancelled bs st (FileCancelled, st2)" for bs
          using sends_cancelled [of cancelled _ bs st2] by (simp add: st2)
        from calculation [THEN sends_send_batch]
        have "sends cancelled (chunks batchLimit (currentBatch st2 @ rest)) st2
            (read_loop pS u cancelled rs (send_batch st2))"
          using chunks_append [OF len] by (simp add: batchLimit_def)
        then show ?thesis
          using go full
          by (auto simp: ReadOk loop [unfolded ReadOk] row rows Let_def st1 st2 st2_def [symmetric]
                intro: stop)
      qed
    qed
  qed
qed

section \<open>Properties\<close>

text \<open>
  C24: Extracting a readable file: whatever \<open>select\<close> chooses and whenever the job is
  cancelled, the batches that were sent are the first ones of the file cut into pieces of 500
  rows, in file order, with the rows the shared decoder gives for the readable records; every
  batch is non-empty; \<open>totalRead\<close> grew by exactly the rows sent; and the extraction reports success
  exactly when the whole file was sent, the only other result being the cancellation.
\<close>

theorem pcap_file_extraction:
  assumes "file_rows pS jobID rs = Some rows"
  shows "case extract_file pS jobID cancelled (Records rs) of (res, st) \<Rightarrow>
    (\<exists>n. sent st = take n (chunks 500 rows) \<and>
       (res = FileDone \<and> concat (sent st) = rows \<or>
        res = FileCancelled \<and> (\<exists>k. cancelled k))) \<and>
    totalRead st = length (concat (sent st)) \<and>
    (\<forall>b \<in> set (sent st). b \<noteq> [] \<and> length b \<le> 500)"
proof -
  obtain res st where ex: "extract_file pS jobID cancelled (Records rs) = (res, st)" by fastforce
  define start where "start = \<lparr>currentBatch = [], sent = [], totalRead = 0, selects = 0\<rparr>"
  have "sends cancelled (chunks 500 rows) start (res, st)"
    using read_loop_sends [OF assms, of start cancelled] ex
    by (simp add: start_def extract_file_def batchLimit_def)
  then obtain n where n: "sent st = take n (chunks 500 rows)"
    "totalRead st = length (concat (take n (chunks 500 rows)))"
    "res = FileDone \<and> n = length (chunks 500 rows) \<or> res = FileCancelled \<and> (\<exists>k. cancelled k)"
    by (auto simp: sends_def start_def)
  have "res = FileDone \<Longrightarrow> concat (sent st) = rows" using n(1,3) by (auto simp: concat_chunks)
  moreover have "\<forall>b \<in> set (sent st). b \<noteq> [] \<and> length b \<le> 500"
    using chunks_lengths [of 500 _ rows] unfolding n(1) by (auto dest: in_set_takeD)
  ultimately show ?thesis unfolding ex using n by auto
qed

text \<open>
  The decoder written out inside \<open>PcapWorker\<close> is the shared \<open>PacketDecoder\<close> on the
  packet with the capture information the reader returned.
\<close>

theorem worker_decoder_is_shared_decoder:
  "worker_row pS jobID ci p =
     PacketDecoder pS jobID (p\<lparr>ci_Timestamp := Timestamp ci, ci_Length := CLength ci\<rparr>)"
  unfolding worker_row_def PacketDecoder_def decode_network_def decode_transport_def worker_flags
  by (simp split: option.split)

lemma pcap_file_extraction_witness:
  "case extract_file (\<lambda>_. ''TCP'') UUID_zero (\<lambda>_. False)
      (Records [ReadOk \<lparr>Timestamp = 5, CLength = 54\<rparr> sample_tcp_packet, ReadErr ''bad'',
                ReadErr ''unexpected EOF'']) of (res, st) \<Rightarrow>
     res = FileDone \<and> length (concat (sent st)) = 1"
proof -
  let ?rs = "[ReadOk \<lparr>Timestamp = 5, CLength = 54\<rparr> sample_tcp_packet, ReadErr ''bad'',
    ReadErr ''unexpected EOF'']"
  obtain rows where rows: "file_rows (\<lambda>_. ''TCP'') UUID_zero ?rs = Some rows" "length rows = 1"
    by (simp add: PacketDecoder_def decode_network_def to_array_def sample_tcp_packet_def split_beta)
  from pcap_file_extraction [OF rows(1), of "\<lambda>_. False"] rows(2) show ?thesis by auto
qed

end
