(* ===== verification/Tables.thy ===== *)
theory Tables
  imports PacketStore
begin

text \<open>
  The tables the two programs share and the bulk write of \<open>shared/storage/storage.go\<close>. The schema
  is the one the files of \<open>live-sniffer/migrations\<close> build, one version per file; a statement that
  names a table or a column its version does not have fails. Every statement takes an explicit
  \<open>fault\<close>: what the connection did to this one call.
\<close>

section \<open>Rows and tables\<close>

record JobRow =
  JobID :: UUID
  Status :: string
  StartedAt :: nanos
  CompletedAt :: "nanos option"
  SourceDir :: string
  TotalFiles :: int
  FilesDone :: int

record SourceFile =
  sf_job :: UUID
  file_path :: string
  checksum :: string

record SessionRow =
  session_id :: UUID
  session_iface :: string
  started_at :: nanos
  ended_at :: "nanos option"
  session_status :: string
  packets_saved :: int

record db =
  schema :: nat
  packet_logs :: "PacketRow list"
  job_tracking :: "JobRow list"
  source_files :: "SourceFile list"
  capture_sessions :: "SessionRow list"

text \<open>SQL equality of two UUIDs: a NULL is equal to nothing.\<close>

definition uuid_eq :: "UUID \<Rightarrow> UUID \<Rightarrow> bool" where
  "uuid_eq a b \<longleftrightarrow> Valid a \<and> Valid b \<and> UBytes a = UBytes b"

lemma uuid_eq_refl [simp]: "uuid_eq u u \<longleftrightarrow> Valid u"
  by (simp add: uuid_eq_def)

lemma uuid_eq_iff: "Valid u \<Longrightarrow> uuid_eq u v \<longleftrightarrow> u = v"
  by (cases u; cases v) (auto simp: uuid_eq_def)

definition job_exists :: "UUID \<Rightarrow> db \<Rightarrow> bool" where
  "job_exists u d \<longleftrightarrow> (\<exists>j \<in> set (job_tracking d). uuid_eq (JobID j) u)"

section \<open>Migrations\<close>

text \<open>Version \<open>n\<close> is the schema after the first \<open>n\<close> migration files; six of them exist.\<close>

abbreviation latest_schema :: nat where "latest_schema \<equiv> 6"

definition packet_source_column :: "nat \<Rightarrow> string" where
  "packet_source_column v = (if v < 6 then ''job_id'' else ''source_id'')"

definition packet_columns :: "nat \<Rightarrow> string list" where
  "packet_columns v =
     [''time'', ''src_ip'', ''dst_ip'', ''src_port'', ''dst_port'', ''protocol'', ''length'',
      ''tcp_flags'', packet_source_column v]"

definition fk_packets_ok :: "db \<Rightarrow> bool" where
  "fk_packets_ok d \<longleftrightarrow>
     (\<forall>r \<in> set (packet_logs d). Valid (SourceID r) \<longrightarrow> job_exists (SourceID r) d)"

definition migration_step :: "db \<Rightarrow> db_error + db" where
  "migration_step d =
     (if schema d = 3 \<and> \<not> fk_packets_ok d then Inl (PgError ''23503'')
      else Inr (d\<lparr>schema := Suc (schema d)\<rparr>))"

fun migrate_Up :: "nat \<Rightarrow> db \<Rightarrow> db_error option \<times> db" where
  "migrate_Up 0 d = (None, d)"
| "migrate_Up (Suc n) d =
     (case migration_step d of Inl e \<Rightarrow> (Some e, d) | Inr d' \<Rightarrow> migrate_Up n d')"

text \<open>\<open>connect\<close> is the outcome of opening the database; \<open>ErrNoChange\<close> is not an error.\<close>

definition RunMigrations :: "db_error option \<Rightarrow> db \<Rightarrow> db_error option \<times> db" where
  "RunMigrations connect d =
     (case connect of Some e \<Rightarrow> (Some e, d) | None \<Rightarrow> migrate_Up (latest_schema - schema d) d)"

section \<open>Opening the database\<close>

record pool_config =
  ConnString :: string
  MaxConns :: int
  MinConns :: int
  MaxConnIdleTime :: nanos
  MaxConnLifetime :: nanos

text \<open>The driver's parser, constructor and ping, with their errors; the pool is its configuration.\<close>

definition InitDB ::
  "(string \<Rightarrow> db_error + pool_config) \<Rightarrow> (pool_config \<Rightarrow> db_error option) \<Rightarrow> (pool_config \<Rightarrow> db_error option) \<Rightarrow>
   string \<Rightarrow> db_error + pool_config"
where
  "InitDB ParseConfig NewWithConfig Ping connString =
     (case ParseConfig connString of
        Inl e \<Rightarrow> Inl e
      | Inr c \<Rightarrow>
          (let config = c\<lparr>MaxConns := 10, MinConns := 2, MaxConnIdleTime := 30 * 60 * Second,
                          MaxConnLifetime := 3600 * Second\<rparr> in
           case NewWithConfig config of
             Some e \<Rightarrow> Inl e
           | None \<Rightarrow> (case Ping config of Some e \<Rightarrow> Inl e | None \<Rightarrow> Inr config)))"

section \<open>Executing one statement\<close>

text \<open>
  A statement is atomic. The connection can fail before the statement ran, or after it committed
  but before the reply arrived.
\<close>

datatype fault = NoFault | FailBefore string | FailAfter string

type_synonym 'a stmt = "db \<Rightarrow> db_error + 'a \<times> db"

definition run_stmt :: "fault \<Rightarrow> 'a stmt \<Rightarrow> db \<Rightarrow> (db_error + 'a) \<times> db" where
  "run_stmt f st d =
     (case f of
        FailBefore e \<Rightarrow> (Inl (ConnError e), d)
      | NoFault \<Rightarrow> (case st d of Inl e \<Rightarrow> (Inl e, d) | Inr (a, d') \<Rightarrow> (Inr a, d'))
      | FailAfter e \<Rightarrow> (Inl (ConnError e), case st d of Inl _ \<Rightarrow> d | Inr (_, d') \<Rightarrow> d'))"

lemma run_stmt_Inr: "run_stmt f st d = (Inr a, d') \<longleftrightarrow> f = NoFault \<and> st d = Inr (a, d')"
  by (auto simp: run_stmt_def split: fault.splits sum.splits)

lemma run_stmt_Inl:
  "run_stmt f st d = (Inl e, d') \<Longrightarrow> d' = d \<or> (\<exists>a m. f = FailAfter m \<and> st d = Inr (a, d'))"
  by (auto simp: run_stmt_def split: fault.splits sum.splits)

lemma run_stmt_preserves:
  "(\<And>a d'. st d = Inr (a, d') \<Longrightarrow> P d') \<Longrightarrow> P d \<Longrightarrow> P (snd (run_stmt f st d))"
  by (auto simp: run_stmt_def split: fault.split sum.split)

definition undefined_table :: db_error where "undefined_table = PgError ''42P01''"
definition undefined_column :: db_error where "undefined_column = PgError ''42703''"
definition foreign_key_violation :: db_error where "foreign_key_violation = PgError ''23503''"
definition unique_violation :: db_error where "unique_violation = PgError ''23505''"
definition int4_overflow :: db_error where "int4_overflow = PgError ''22003''"
definition value_too_long :: db_error where "value_too_long = PgError ''22001''"

lemmas sql_errors = undefined_table_def undefined_column_def foreign_key_violation_def
  unique_violation_def int4_overflow_def value_too_long_def

abbreviation int4_range :: "int \<Rightarrow> bool" where
  "int4_range n \<equiv> - (2 ^ 31) \<le> n \<and> n < 2 ^ 31"

section \<open>Bulk writes\<close>

datatype pg_value = VTime nanos | VText string | VInt4 "32 word" | VInt2 "16 word" | VUUID UUID

definition input_row :: "PacketRow \<Rightarrow> pg_value list" where
  "input_row row =
     [VTime (Time row), VText (Addr_String (SrcIP row)), VText (Addr_String (DstIP row)),
      VInt4 (SrcPort row), VInt4 (DstPort row), VText (Protocol row),
      VInt4 (PLength row), VInt2 (TCPFlags row), VUUID (SourceID row)]"

definition copy_columns :: "string list" where
  "copy_columns = [''time'', ''src_ip'', ''dst_ip'', ''src_port'', ''dst_port'', ''protocol'',
     ''length'', ''tcp_flags'', ''source_id'']"

definition BulkDatabaseCopy ::
  "(string list \<Rightarrow> string list \<Rightarrow> pg_value list list \<Rightarrow> 's \<Rightarrow> (db_error + int) \<times> 's) \<Rightarrow>
   PacketRow list \<Rightarrow> 's \<Rightarrow> db_error option \<times> 's"
where
  "BulkDatabaseCopy CopyFrom rows s =
     (if length rows = 0 then (None, s)
      else
        (let inputRows = map input_row rows;
             (res, s') = CopyFrom [''packet_logs''] copy_columns inputRows s
         in (case res of Inl e \<Rightarrow> Some e | Inr _ \<Rightarrow> None, s')))"

text \<open>
  What a writer of batches relies on: \<open>CopyFrom\<close> is all or nothing, an error that reaches the
  caller may be a lost reply, and what arrives in the table are the rows as the table's column
  types hold them.
\<close>

locale bulk_writer =
  fixes CopyFrom :: "string list \<Rightarrow> string list \<Rightarrow> pg_value list list \<Rightarrow> 's \<Rightarrow> (db_error + int) \<times> 's"
    and stored :: "'s \<Rightarrow> PacketRow list"
    and storable :: "PacketRow list \<Rightarrow> PacketRow list option"
  assumes copy_ok:
      "CopyFrom [''packet_logs''] copy_columns (map input_row rows) s = (Inr n, s') \<Longrightarrow>
       \<exists>rs. storable rows = Some rs \<and> stored s' = stored s @ rs"
    and copy_error:
      "CopyFrom [''packet_logs''] copy_columns (map input_row rows) s = (Inl e, s') \<Longrightarrow>
       stored s' = stored s \<or> (\<exists>rs. storable rows = Some rs \<and> stored s' = stored s @ rs)"
    and storable_Nil: "storable [] = Some []"
    and storable_append:
      "storable (as @ bs) =
       (case (storable as, storable bs) of (Some xs, Some ys) \<Rightarrow> Some (xs @ ys) | _ \<Rightarrow> None)"
begin

lemma bulk_ok:
  "BulkDatabaseCopy CopyFrom rows s = (None, s') \<Longrightarrow>
   \<exists>rs. storable rows = Some rs \<and> stored s' = stored s @ rs"
  using copy_ok [of rows s] storable_Nil
  by (auto simp: BulkDatabaseCopy_def split: if_splits prod.splits sum.splits)

lemma bulk_error:
  "BulkDatabaseCopy CopyFrom rows s = (Some e, s') \<Longrightarrow>
   stored s' = stored s \<or> (\<exists>rs. storable rows = Some rs \<and> stored s' = stored s @ rs)"
  using copy_error [of rows s]
  by (auto simp: BulkDatabaseCopy_def split: if_splits prod.splits sum.splits)

lemma bulk_bad_batch:
  "storable rows = None \<Longrightarrow>
   fst (BulkDatabaseCopy CopyFrom rows s) \<noteq> None \<and> stored (snd (BulkDatabaseCopy CopyFrom rows s)) = stored s"
  using bulk_ok [of rows s] bulk_error [of rows s]
  by (cases "BulkDatabaseCopy CopyFrom rows s"; cases "fst (BulkDatabaseCopy CopyFrom rows s)") auto

end

section \<open>The table's side of COPY\<close>

text \<open>\<open>TIMESTAMPTZ\<close> keeps microseconds; the driver drops the rest.\<close>

definition pg_timestamp :: "nanos \<Rightarrow> nanos" where
  "pg_timestamp t = t div 1000 * 1000"

text \<open>
  \<open>inet_in\<close> is how the database reads the text of an address (\<open>None\<close>: invalid input). The columns
  of \<open>packet_logs\<close> are \<open>INET\<close> for the addresses and \<open>VARCHAR(10)\<close> for the protocol.
\<close>

definition as_stored :: "(string \<Rightarrow> Addr option) \<Rightarrow> PacketRow \<Rightarrow> PacketRow option" where
  "as_stored inet_in r =
     (case (inet_in (Addr_String (SrcIP r)), inet_in (Addr_String (DstIP r))) of
        (Some s, Some d) \<Rightarrow>
          (if length (Protocol r) \<le> 10 then Some (r\<lparr>Time := pg_timestamp (Time r), SrcIP := s, DstIP := d\<rparr>) else None)
      | _ \<Rightarrow> None)"

definition copy_row ::
  "(string \<Rightarrow> Addr option) \<Rightarrow> string \<Rightarrow> string list \<Rightarrow> pg_value list \<Rightarrow> db_error + PacketRow"
where
  "copy_row inet_in src_col cols vals =
     (let v = map_of (zip cols vals) in
      case (v ''time'', v ''src_ip'', v ''dst_ip'', v ''src_port'', v ''dst_port'', v ''protocol'',
            v ''length'', v ''tcp_flags'', v src_col) of
        (Some (VTime t), Some (VText s), Some (VText d), Some (VInt4 sp), Some (VInt4 dp),
         Some (VText pr), Some (VInt4 l), Some (VInt2 fl), Some (VUUID u)) \<Rightarrow>
          (case (inet_in s, inet_in d) of
             (Some sa, Some da) \<Rightarrow>
               (if length pr \<le> 10
                then Inr \<lparr>Time = pg_timestamp t, SrcIP = sa, DstIP = da, SrcPort = sp, DstPort = dp,
                          Protocol = pr, PLength = l, TCPFlags = fl, SourceID = u\<rparr>
                else Inl value_too_long)
           | _ \<Rightarrow> Inl (ConnError ''invalid input for inet''))
      | _ \<Rightarrow> Inl (ConnError ''cannot encode''))"

fun copy_rows :: "(pg_value list \<Rightarrow> db_error + PacketRow) \<Rightarrow> pg_value list list \<Rightarrow> db_error + PacketRow list"
where
  "copy_rows f [] = Inr []"
| "copy_rows f (vs # vss) =
     (case f vs of
        Inl e \<Rightarrow> Inl e
      | Inr r \<Rightarrow> (case copy_rows f vss of Inl e \<Rightarrow> Inl e | Inr rs \<Rightarrow> Inr (r # rs)))"

definition copy_stmt ::
  "(string \<Rightarrow> Addr option) \<Rightarrow> string list \<Rightarrow> string list \<Rightarrow> pg_value list list \<Rightarrow> int stmt"
where
  "copy_stmt inet_in tbl cols vss d =
     (if tbl \<noteq> [''packet_logs''] \<or> schema d < 1 then Inl undefined_table
      else if \<not> set cols \<subseteq> set (packet_columns (schema d)) then Inl undefined_column
      else
        (case copy_rows (copy_row inet_in (packet_source_column (schema d)) cols) vss of
           Inl e \<Rightarrow> Inl e
         | Inr rs \<Rightarrow>
             (let d' = d\<lparr>packet_logs := packet_logs d @ rs\<rparr> in
              if schema d \<in> {4, 5} \<and> \<not> fk_packets_ok d' then Inl foreign_key_violation
              else Inr (int (length rs), d'))))"

definition pg_CopyFrom ::
  "(string \<Rightarrow> Addr option) \<Rightarrow> fault \<Rightarrow> string list \<Rightarrow> string list \<Rightarrow> pg_value list list \<Rightarrow> db \<Rightarrow>
   (db_error + int) \<times> db"
where
  "pg_CopyFrom inet_in f tbl cols vss d = run_stmt f (copy_stmt inet_in tbl cols vss) d"

lemma copy_row_input_row:
  "copy_row inet_in ''source_id'' copy_columns (input_row r) =
     (case as_stored inet_in r of
        Some r' \<Rightarrow> Inr r'
      | None \<Rightarrow> (case (inet_in (Addr_String (SrcIP r)), inet_in (Addr_String (DstIP r))) of
           (Some _, Some _) \<Rightarrow> Inl value_too_long
         | _ \<Rightarrow> Inl (ConnError ''invalid input for inet'')))"
  by (simp add: copy_row_def input_row_def copy_columns_def as_stored_def split: option.split)

lemma those_copy_rows:
  "those (map (as_stored inet_in) rows) =
     (case copy_rows (copy_row inet_in ''source_id'' copy_columns) (map input_row rows) of
        Inl _ \<Rightarrow> None | Inr rs \<Rightarrow> Some rs)"
  by (induction rows) (auto simp: copy_row_input_row split: option.splits sum.splits)

lemma copy_rows_input:
  "copy_rows (copy_row inet_in ''source_id'' copy_columns) (map input_row rows) = Inr rs \<longleftrightarrow>
   those (map (as_stored inet_in) rows) = Some rs"
  unfolding those_copy_rows by (simp split: sum.split)

lemma source_id_column:
  "set copy_columns \<subseteq> set (packet_columns v) \<longleftrightarrow> 6 \<le> v"
  by (simp add: copy_columns_def packet_columns_def packet_source_column_def)

lemma copy_stmt_input:
  "copy_stmt inet_in [''packet_logs''] copy_columns (map input_row rows) d = Inr (n, d') \<longleftrightarrow>
   6 \<le> schema d \<and>
   (\<exists>rs. those (map (as_stored inet_in) rows) = Some rs \<and> n = int (length rs) \<and>
         d' = d\<lparr>packet_logs := packet_logs d @ rs\<rparr>)"
proof (cases "6 \<le> schema d")
  case True
  then have "packet_source_column (schema d) = ''source_id''" by (simp add: packet_source_column_def)
  then show ?thesis
    using True
    by (auto simp: copy_stmt_def source_id_column copy_rows_input [symmetric] split: sum.split)
next
  case False
  then show ?thesis by (auto simp: copy_stmt_def source_id_column)
qed

lemma those_append:
  "those (xs @ ys) = (case (those xs, those ys) of (Some a, Some b) \<Rightarrow> Some (a @ b) | _ \<Rightarrow> None)"
  by (induction xs) (auto split: option.split)

interpretation pg: bulk_writer "pg_CopyFrom inet_in f" packet_logs "\<lambda>rows. those (map (as_stored inet_in) rows)"
  for inet_in f
proof
  fix rows :: "PacketRow list" and s n s'
  assume "pg_CopyFrom inet_in f [''packet_logs''] copy_columns (map input_row rows) s = (Inr n, s')"
  then show "\<exists>rs. those (map (as_stored inet_in) rows) = Some rs \<and> packet_logs s' = packet_logs s @ rs"
    by (auto simp: pg_CopyFrom_def run_stmt_Inr copy_stmt_input)
next
  fix rows :: "PacketRow list" and s e s'
  assume "pg_CopyFrom inet_in f [''packet_logs''] copy_columns (map input_row rows) s = (Inl e, s')"
  then show "packet_logs s' = packet_logs s \<or>
    (\<exists>rs. those (map (as_stored inet_in) rows) = Some rs \<and> packet_logs s' = packet_logs s @ rs)"
    by (auto simp: pg_CopyFrom_def copy_stmt_input dest!: run_stmt_Inl)
qed (simp_all add: those_append)

text \<open>A copy touches nothing but the packets.\<close>

lemma pg_copy_frame:
  "BulkDatabaseCopy (pg_CopyFrom inet_in f) rows d = (res, d') \<Longrightarrow>
   schema d' = schema d \<and> job_tracking d' = job_tracking d \<and> source_files d' = source_files d \<and>
   capture_sessions d' = capture_sessions d"
  by (auto simp: BulkDatabaseCopy_def pg_CopyFrom_def run_stmt_def copy_stmt_def Let_def
      split: if_splits prod.splits fault.splits sum.splits)

section \<open>Properties\<close>

text \<open>
  C27: A bulk write is all or nothing: when it reports success every row of the batch is in
  the table, in order and after the rows that were there; when it reports an error the table is
  unchanged, except that a lost reply may hide a complete write. One row that the table cannot
  hold (an address the database does not read, a protocol name of more than ten characters) makes
  the whole batch fail, and so does any schema before the rename of \<open>job_id\<close> to \<open>source_id\<close>.
\<close>

theorem bulk_copy_all_or_nothing:
  "case BulkDatabaseCopy (pg_CopyFrom inet_in f) rows d of (res, d') \<Rightarrow>
     (res = None \<longrightarrow>
        (\<exists>rs. those (map (as_stored inet_in) rows) = Some rs \<and> packet_logs d' = packet_logs d @ rs)) \<and>
     (res \<noteq> None \<longrightarrow> packet_logs d' = packet_logs d \<or>
        (\<exists>m rs. f = FailAfter m \<and> those (map (as_stored inet_in) rows) = Some rs \<and>
           packet_logs d' = packet_logs d @ rs)) \<and>
     (rows \<noteq> [] \<and> (schema d < 6 \<or> (\<exists>r \<in> set rows. as_stored inet_in r = None)) \<longrightarrow>
        res \<noteq> None \<and> packet_logs d' = packet_logs d)"
proof -
  obtain res d' where b: "BulkDatabaseCopy (pg_CopyFrom inet_in f) rows d = (res, d')" by fastforce
  have ok: "\<exists>rs. those (map (as_stored inet_in) rows) = Some rs \<and> packet_logs d' = packet_logs d @ rs"
    if "res = None" using pg.bulk_ok b that by blast
  have err: "packet_logs d' = packet_logs d \<or>
      (\<exists>m rs. f = FailAfter m \<and> those (map (as_stored inet_in) rows) = Some rs \<and>
         packet_logs d' = packet_logs d @ rs)" if "res \<noteq> None"
    using b that
    by (auto simp: BulkDatabaseCopy_def pg_CopyFrom_def copy_stmt_input dest!: run_stmt_Inl
        split: if_splits prod.splits sum.splits)
  have bad: "res \<noteq> None \<and> packet_logs d' = packet_logs d"
    if "rows \<noteq> []" "schema d < 6 \<or> those (map (as_stored inet_in) rows) = None"
    using b that
    by (auto simp: BulkDatabaseCopy_def pg_CopyFrom_def copy_stmt_input run_stmt_Inr
        dest!: run_stmt_Inl split: prod.splits sum.splits)
  have "those (map (as_stored inet_in) rows) = None" if "r \<in> set rows" "as_stored inet_in r = None" for r
    using that by (induction rows) (auto split: option.split)
  then show ?thesis unfolding b using ok err bad by auto
qed

text \<open>
  Non-IP packets: the row that the decoder returns for a packet without an IPv4 or IPv6
  layer can never be stored, and the batch it is in is lost with it.
\<close>

theorem non_ip_packet_fails_batch:
  assumes "inet_in ''invalid IP'' = None"
    and "layerIPv4 p = None" "layerIPv6 p = None"
  shows "\<exists>row. PacketDecoder pS u p = Some row \<and>
    (\<forall>rows f d. row \<in> set rows \<longrightarrow>
       fst (BulkDatabaseCopy (pg_CopyFrom inet_in f) rows d) \<noteq> None \<and>
       packet_logs (snd (BulkDatabaseCopy (pg_CopyFrom inet_in f) rows d)) = packet_logs d)"
proof -
  obtain row where row: "PacketDecoder pS u p = Some row" "SrcIP row = AddrZero"
    using assms(2,3) by (simp add: PacketDecoder_def decode_network_def split_beta)
  have "those (map (as_stored inet_in) rows) = None" if "row \<in> set rows" for rows
    using that row(2) assms(1) by (induction rows) (auto simp: as_stored_def split: option.split)
  then show ?thesis using row(1) pg.bulk_bad_batch by blast
qed

definition sample_inet_in :: "string \<Rightarrow> Addr option" where
  "sample_inet_in s = (if s = ''invalid IP'' then None else Some (Addr4 [10, 5, 7, 113]))"

lemma non_ip_packet_fails_batch_witness:
  "\<exists>row. PacketDecoder (\<lambda>_. ''ARP'') UUID_zero
       (sample_tcp_packet\<lparr>layerIPv4 := None, layerTCP := None\<rparr>) = Some row \<and>
     (\<forall>rows f d. row \<in> set rows \<longrightarrow>
       fst (BulkDatabaseCopy (pg_CopyFrom sample_inet_in f) rows d) \<noteq> None \<and>
       packet_logs (snd (BulkDatabaseCopy (pg_CopyFrom sample_inet_in f) rows d)) = packet_logs d)"
  by (rule non_ip_packet_fails_batch) (simp_all add: sample_tcp_packet_def sample_inet_in_def)

lemma bulk_copy_all_or_nothing_witness:
  "case BulkDatabaseCopy (pg_CopyFrom sample_inet_in NoFault)
      [\<lparr>Time = 0, SrcIP = AddrZero, DstIP = AddrZero, SrcPort = 0, DstPort = 0, Protocol = '''', PLength = 0,
        TCPFlags = 0, SourceID = UUID_zero\<rparr>]
      \<lparr>schema = 6, packet_logs = [], job_tracking = [], source_files = [], capture_sessions = []\<rparr> of
     (res, d') \<Rightarrow> res \<noteq> None \<and> packet_logs d' = []"
  using bulk_copy_all_or_nothing [where inet_in = sample_inet_in and f = NoFault and rows =
      "[\<lparr>Time = 0, SrcIP = AddrZero, DstIP = AddrZero, SrcPort = 0, DstPort = 0, Protocol = '''', PLength = 0,
        TCPFlags = 0, SourceID = UUID_zero\<rparr>]"
      and d = "\<lparr>schema = 6, packet_logs = [], job_tracking = [], source_files = [], capture_sessions = []\<rparr>"]
  by (auto simp: as_stored_def sample_inet_in_def split: prod.splits)

end
