(* ===== verification/JobStore.thy ===== *)
theory JobStore
  imports Tables
begin

text \<open>
  \<open>go-sniffer/internal/storage/job_tracking.go\<close>: each statement on the tables, and the methods of
  \<open>Store\<close> with their error wrapping. The text form of a UUID belongs to the driver: \<open>uuid_Scan\<close> and
  \<open>uuid_String\<close> are parameters. The job table refines a map from identifiers to rows.
\<close>

section \<open>Statements\<close>

definition jobs_rows :: "UUID \<Rightarrow> (JobRow \<Rightarrow> JobRow) \<Rightarrow> db \<Rightarrow> db" where
  "jobs_rows u g d =
     d\<lparr>job_tracking := map (\<lambda>j. if uuid_eq (JobID j) u then g j else j) (job_tracking d)\<rparr>"

definition insert_job_stmt ::
  "UUID \<Rightarrow> string \<Rightarrow> nanos \<Rightarrow> string \<Rightarrow> int \<Rightarrow> int \<Rightarrow> UUID stmt"
where
  \<comment> \<open>the first argument is the identifier \<open>gen_random_uuid()\<close> picks\<close>
  "insert_job_stmt u status started dir total_files files_read d =
     (if schema d < 2 then Inl undefined_table
      else if \<not> int4_range total_files \<or> \<not> int4_range files_read then Inl (ConnError ''cannot encode'')
      else if job_exists u d then Inl unique_violation
      else Inr (u, d\<lparr>job_tracking := job_tracking d @
             [\<lparr>JobID = u, Status = status, StartedAt = pg_timestamp started, CompletedAt = None,
               SourceDir = dir, TotalFiles = total_files, FilesDone = files_read\<rparr>]\<rparr>))"

definition update_progress_stmt :: "int \<Rightarrow> UUID \<Rightarrow> unit stmt" where
  "update_progress_stmt n u d =
     (if schema d < 2 then Inl undefined_table
      else if \<not> int4_range n then Inl (ConnError ''cannot encode'')
      else if list_ex (\<lambda>j. uuid_eq (JobID j) u \<and> \<not> int4_range (FilesDone j + n)) (job_tracking d)
      then Inl int4_overflow
      else Inr ((), jobs_rows u (\<lambda>j. j\<lparr>FilesDone := FilesDone j + n\<rparr>) d))"

definition update_status_stmt :: "string \<Rightarrow> nanos option \<Rightarrow> UUID \<Rightarrow> unit stmt" where
  "update_status_stmt status completed u d =
     (if schema d < 2 then Inl undefined_table
      else Inr ((), jobs_rows u
             (\<lambda>j. j\<lparr>Status := status, CompletedAt := map_option pg_timestamp completed\<rparr>) d))"

definition select_jobs_stmt :: "JobRow list stmt" where
  "select_jobs_stmt d =
     (if schema d < 2 then Inl undefined_table
      else Inr (sort_key (\<lambda>j. - StartedAt j) (job_tracking d), d))"

definition select_job_stmt :: "UUID \<Rightarrow> JobRow option stmt" where
  "select_job_stmt u d =
     (if schema d < 2 then Inl undefined_table
      else Inr (find (\<lambda>j. uuid_eq (JobID j) u) (job_tracking d), d))"

text \<open>
  The deletion names \<open>packet_logs.job_id\<close>, the column of the schemas before the rename; the
  reference of \<open>source_files\<close> to the job has no cascade.
\<close>

definition delete_job_stmt :: "UUID \<Rightarrow> unit stmt" where
  "delete_job_stmt u d =
     (if schema d < 1 then Inl undefined_table
      else if packet_source_column (schema d) \<noteq> ''job_id'' then Inl undefined_column
      else if schema d < 2 then Inl undefined_table
      else if 3 \<le> schema d \<and> job_exists u d \<and> list_ex (\<lambda>s. uuid_eq (sf_job s) u) (source_files d)
      then Inl foreign_key_violation
      else Inr ((), d\<lparr>packet_logs := filter (\<lambda>r. \<not> uuid_eq (SourceID r) u) (packet_logs d),
                      job_tracking := filter (\<lambda>j. \<not> uuid_eq (JobID j) u) (job_tracking d)\<rparr>))"

section \<open>The methods of Store\<close>

datatype job_error =
    ErrInvalidUUID string | ErrJobNotFound | ErrDatabase db_error
  | GettingJobs db_error | ScanningJob db_error

fun scan_job_rows :: "JobRow list \<Rightarrow> (db_error + JobRow) list \<Rightarrow> job_error + JobRow list" where
  "scan_job_rows jobs [] = Inr jobs"
| "scan_job_rows jobs (Inl e # rs) = Inl (ScanningJob e)"
| "scan_job_rows jobs (Inr row # rs) = scan_job_rows (jobs @ [row]) rs"

definition GetAllJobs :: "db_error + JobRow rows \<Rightarrow> job_error + JobRow list" where
  \<comment> \<open>the rows' own error, the second component, is not looked at\<close>
  "GetAllJobs resp =
     (case resp of Inl e \<Rightarrow> Inl (GettingJobs e) | Inr (rows, _) \<Rightarrow> scan_job_rows [] rows)"

text \<open>The answer to the query: \<open>broken\<close> is a failure of the connection after so many rows.\<close>

definition query_jobs :: "fault \<Rightarrow> (nat \<times> db_error) option \<Rightarrow> db \<Rightarrow> db_error + JobRow rows" where
  "query_jobs f broken d =
     (case fst (run_stmt f select_jobs_stmt d) of
        Inl e \<Rightarrow> Inl e
      | Inr js \<Rightarrow>
          (case broken of None \<Rightarrow> Inr (all_rows js)
           | Some (n, e) \<Rightarrow> Inr (map Inr (take n js), Some e)))"

definition CreateJob ::
  "UUID \<Rightarrow> nanos \<Rightarrow> fault \<Rightarrow> string \<Rightarrow> int \<Rightarrow> db \<Rightarrow> (db_error + UUID) \<times> db"
where
  "CreateJob fresh now f sourceDir totalFiles d =
     run_stmt f (insert_job_stmt fresh ''PROCESSING'' now sourceDir totalFiles 0) d"

definition UpdateJobProgress :: "fault \<Rightarrow> UUID \<Rightarrow> int \<Rightarrow> db \<Rightarrow> db_error option \<times> db" where
  "UpdateJobProgress f jobID filesRead d =
     (case run_stmt f (update_progress_stmt filesRead jobID) d of
        (Inl e, d') \<Rightarrow> (Some e, d') | (Inr _, d') \<Rightarrow> (None, d'))"

definition UpdateJobStatus ::
  "fault \<Rightarrow> UUID \<Rightarrow> string \<Rightarrow> nanos option \<Rightarrow> db \<Rightarrow> db_error option \<times> db"
where
  "UpdateJobStatus f jobID status completedAt d =
     (case run_stmt f (update_status_stmt status completedAt jobID) d of
        (Inl e, d') \<Rightarrow> (Some e, d') | (Inr _, d') \<Rightarrow> (None, d'))"

definition GetJob :: "(string \<Rightarrow> string + UUID) \<Rightarrow> fault \<Rightarrow> string \<Rightarrow> db \<Rightarrow> job_error + JobRow" where
  "GetJob uuid_Scan f jobIDStr d =
     (case uuid_Scan jobIDStr of
        Inl e \<Rightarrow> Inl (ErrInvalidUUID e)
      | Inr jobID \<Rightarrow>
          (case fst (run_stmt f (select_job_stmt jobID) d) of
             Inl e \<Rightarrow> Inl (ErrDatabase e)
           | Inr None \<Rightarrow> Inl ErrJobNotFound
           | Inr (Some row) \<Rightarrow> Inr row))"

definition DeleteJob ::
  "(string \<Rightarrow> string + UUID) \<Rightarrow> fault \<Rightarrow> string \<Rightarrow> db \<Rightarrow> job_error option \<times> db"
where
  "DeleteJob uuid_Scan f jobIDStr d =
     (case uuid_Scan jobIDStr of
        Inl e \<Rightarrow> (Some (ErrInvalidUUID e), d)
      | Inr jobID \<Rightarrow>
          (case run_stmt f (delete_job_stmt jobID) d of
             (Inl e, d') \<Rightarrow> (Some (ErrDatabase e), d')
           | (Inr _, d') \<Rightarrow> (None, d')))"

lemmas job_statements = insert_job_stmt_def update_progress_stmt_def update_status_stmt_def
  select_jobs_stmt_def select_job_stmt_def delete_job_stmt_def

section \<open>The table as a map\<close>

definition jobs_ok :: "db \<Rightarrow> bool" where
  "jobs_ok d \<longleftrightarrow>
     list_all Valid (map JobID (job_tracking d)) \<and> distinct (map JobID (job_tracking d))"

definition job_map :: "db \<Rightarrow> UUID \<rightharpoonup> JobRow" where
  "job_map d u = find (\<lambda>j. uuid_eq (JobID j) u) (job_tracking d)"

lemma job_map_None: "job_map d u = None \<longleftrightarrow> \<not> job_exists u d"
  by (auto simp: job_map_def job_exists_def find_None_iff)

lemma find_map_rows:
  "(\<And>j. JobID (g j) = JobID j) \<Longrightarrow>
   find (\<lambda>j. uuid_eq (JobID j) v) (map (\<lambda>j. if uuid_eq (JobID j) u then g j else j) js) =
   map_option (\<lambda>j. if uuid_eq (JobID j) u then g j else j) (find (\<lambda>j. uuid_eq (JobID j) v) js)"
  by (induction js) auto

lemma find_JobID: "find (\<lambda>j. uuid_eq (JobID j) v) js = Some j \<Longrightarrow> uuid_eq (JobID j) v \<and> j \<in> set js"
  by (auto simp: find_Some_iff)

lemma uuid_eq_trans: "uuid_eq a b \<Longrightarrow> uuid_eq a c \<longleftrightarrow> uuid_eq b c"
  by (auto simp: uuid_eq_def)

lemma uuid_eq_imp_eq: "uuid_eq a b \<Longrightarrow> a = b"
  by (cases a; cases b) (auto simp: uuid_eq_def)

lemma job_map_rows:
  assumes "\<And>j. JobID (g j) = JobID j"
  shows "job_map (jobs_rows u g d) = (job_map d)(u := map_option g (job_map d u))"
proof
  fix v
  have found: "uuid_eq (JobID j) u \<longleftrightarrow> v = u" if "find (\<lambda>j. uuid_eq (JobID j) v) (job_tracking d) = Some j" for j
    using find_JobID [OF that] by (auto dest: uuid_eq_imp_eq)
  show "job_map (jobs_rows u g d) v = ((job_map d)(u := map_option g (job_map d u))) v"
    unfolding job_map_def jobs_rows_def
    using found by (cases "find (\<lambda>j. uuid_eq (JobID j) v) (job_tracking d)") (auto simp: find_map_rows assms)
qed

lemma jobs_ok_rows: "(\<And>j. JobID (g j) = JobID j) \<Longrightarrow> jobs_ok (jobs_rows u g d) \<longleftrightarrow> jobs_ok d"
proof -
  assume "\<And>j. JobID (g j) = JobID j"
  then have "map JobID (job_tracking (jobs_rows u g d)) = map JobID (job_tracking d)"
    by (simp add: jobs_rows_def)
  then show ?thesis unfolding jobs_ok_def by simp
qed

lemma find_append: "find P (xs @ ys) = (case find P xs of None \<Rightarrow> find P ys | r \<Rightarrow> r)"
  by (induction xs) auto

lemma find_filter_not:
  "find (\<lambda>j. uuid_eq (JobID j) v) (filter (\<lambda>j. \<not> uuid_eq (JobID j) u) js) =
   (if v = u then None else find (\<lambda>j. uuid_eq (JobID j) v) js)"
  by (induction js) (auto dest: uuid_eq_imp_eq)

lemma job_map_insert:
  assumes "insert_job_stmt u status t dir n k d = Inr (v, d')" "Valid u"
  shows "v = u" "job_map d u = None"
    "job_map d' = (job_map d)(u \<mapsto> \<lparr>JobID = u, Status = status, StartedAt = pg_timestamp t,
       CompletedAt = None, SourceDir = dir, TotalFiles = n, FilesDone = k\<rparr>)"
    "jobs_ok d \<Longrightarrow> jobs_ok d'"
proof -
  let ?j = "\<lparr>JobID = u, Status = status, StartedAt = pg_timestamp t,
       CompletedAt = None, SourceDir = dir, TotalFiles = n, FilesDone = k\<rparr>"
  have d': "d' = d\<lparr>job_tracking := job_tracking d @ [?j]\<rparr>" and fresh: "\<not> job_exists u d"
    and "v = u"
    using assms(1) by (auto simp: insert_job_stmt_def split: if_splits)
  show "v = u" by fact
  show none: "job_map d u = None" using fresh by (simp add: job_map_None)
  have other: "v \<noteq> u \<Longrightarrow> find (\<lambda>j. uuid_eq (JobID j) v) [?j] = None" for v
    using assms(2) by (auto simp: uuid_eq_iff)
  show "job_map d' = (job_map d)(u \<mapsto> ?j)"
  proof
    fix v
    show "job_map d' v = ((job_map d)(u \<mapsto> ?j)) v"
      using none other [of v] assms(2) by (auto simp: job_map_def d' find_append split: option.split)
  qed
  have "\<And>j. j \<in> set (job_tracking d) \<Longrightarrow> JobID j \<noteq> u"
    using fresh assms(2) by (auto simp: job_exists_def)
  then show "jobs_ok d \<Longrightarrow> jobs_ok d'" using assms(2) by (auto simp: jobs_ok_def d')
qed

lemma job_map_delete:
  assumes "delete_job_stmt u d = Inr (x, d')"
  shows "job_map d' = (job_map d)(u := None)" "jobs_ok d \<Longrightarrow> jobs_ok d'"
    "packet_logs d' = filter (\<lambda>r. \<not> uuid_eq (SourceID r) u) (packet_logs d)"
proof -
  have d': "d' = d\<lparr>packet_logs := filter (\<lambda>r. \<not> uuid_eq (SourceID r) u) (packet_logs d),
      job_tracking := filter (\<lambda>j. \<not> uuid_eq (JobID j) u) (job_tracking d)\<rparr>"
    using assms by (auto simp: delete_job_stmt_def split: if_splits)
  show "job_map d' = (job_map d)(u := None)"
    by (rule ext) (simp add: d' job_map_def find_filter_not)
  show "jobs_ok d \<Longrightarrow> jobs_ok d'"
    by (auto simp: d' jobs_ok_def list_all_iff distinct_map inj_on_def)
qed (use assms in \<open>auto simp: delete_job_stmt_def split: if_splits\<close>)

section \<open>Sequences of updates of one job\<close>

text \<open>
  The workers update job rows and ignore the errors. \<open>reached\<close> says that the statement got to the
  database, whether or not its reply came back.
\<close>

definition reached :: "fault \<Rightarrow> bool" where
  "reached f \<longleftrightarrow> (case f of FailBefore _ \<Rightarrow> False | _ \<Rightarrow> True)"

datatype job_update = FileFinished | SetStatus string "nanos option"

fun run_updates ::
  "(fault \<Rightarrow> UUID \<Rightarrow> int \<Rightarrow> 's \<Rightarrow> db_error option \<times> 's) \<Rightarrow>
   (fault \<Rightarrow> UUID \<Rightarrow> string \<Rightarrow> nanos option \<Rightarrow> 's \<Rightarrow> db_error option \<times> 's) \<Rightarrow>
   (fault \<times> UUID \<times> job_update) list \<Rightarrow> 's \<Rightarrow> 's"
where
  "run_updates progress status [] s = s"
| "run_updates progress status ((f, v, FileFinished) # us) s =
     run_updates progress status us (snd (progress f v 1 s))"
| "run_updates progress status ((f, v, SetStatus st t) # us) s =
     run_updates progress status us (snd (status f v st t s))"

definition effective :: "UUID \<Rightarrow> (fault \<times> UUID \<times> job_update) list \<Rightarrow> job_update list" where
  "effective u us = map (snd \<circ> snd) (filter (\<lambda>(f, v, _). v = u \<and> reached f) us)"

fun apply_update :: "(nanos \<Rightarrow> nanos) \<Rightarrow> job_update \<Rightarrow> JobRow \<Rightarrow> JobRow" where
  "apply_update stamp FileFinished j = j\<lparr>FilesDone := FilesDone j + 1\<rparr>"
| "apply_update stamp (SetStatus st t) j = j\<lparr>Status := st, CompletedAt := map_option stamp t\<rparr>"

lemma fold_FilesDone:
  "FilesDone (fold (apply_update stamp) us j) = FilesDone j + int (count_list us FileFinished)"
proof (induction us arbitrary: j)
  case (Cons a us)
  then show ?case by (cases a) auto
qed simp

locale job_table =
  fixes rows :: "'s \<Rightarrow> UUID \<rightharpoonup> JobRow"
    and ready :: "'s \<Rightarrow> bool"
    and progress :: "fault \<Rightarrow> UUID \<Rightarrow> int \<Rightarrow> 's \<Rightarrow> db_error option \<times> 's"
    and status :: "fault \<Rightarrow> UUID \<Rightarrow> string \<Rightarrow> nanos option \<Rightarrow> 's \<Rightarrow> db_error option \<times> 's"
    and stamp :: "nanos \<Rightarrow> nanos"
  assumes ready_progress: "ready s \<Longrightarrow> ready (snd (progress f v n s))"
    and ready_status: "ready s \<Longrightarrow> ready (snd (status f v st t s))"
    and progress_row:
      "ready s \<Longrightarrow> rows s u = Some j \<Longrightarrow> int4_range (FilesDone j + 1) \<Longrightarrow>
       rows (snd (progress f v 1 s)) u =
         Some (if v = u \<and> reached f then j\<lparr>FilesDone := FilesDone j + 1\<rparr> else j)"
    and status_row:
      "ready s \<Longrightarrow> rows s u = Some j \<Longrightarrow>
       rows (snd (status f v st t s)) u =
         Some (if v = u \<and> reached f then j\<lparr>Status := st, CompletedAt := map_option stamp t\<rparr> else j)"
begin

lemma run_updates_row:
  "ready s \<Longrightarrow> rows s u = Some j \<Longrightarrow> 0 \<le> FilesDone j \<Longrightarrow>
   FilesDone j + int (length us) < 2 ^ 31 \<Longrightarrow>
   ready (run_updates progress status us s) \<and>
   rows (run_updates progress status us s) u = Some (fold (apply_update stamp) (effective u us) j)"
proof (induction us arbitrary: s j)
  case Nil
  then show ?case by (simp add: effective_def)
next
  case (Cons x us)
  obtain f v upd where x: "x = (f, v, upd)" by (cases x)
  define j' where "j' = (if v = u \<and> reached f then apply_update stamp upd j else j)"
  have eff: "fold (apply_update stamp) (effective u (x # us)) j = fold (apply_update stamp) (effective u us) j'"
    by (simp add: x effective_def j'_def)
  have j': "0 \<le> FilesDone j'" "FilesDone j' + int (length us) < 2 ^ 31"
    using Cons.prems by (cases upd; simp add: j'_def)+
  show ?case
  proof (cases upd)
    case FileFinished
    have "rows (snd (progress f v 1 s)) u = Some j'"
      using Cons.prems by (subst progress_row) (auto simp: j'_def FileFinished)
    then show ?thesis
      using Cons.IH [OF ready_progress [OF Cons.prems(1)] _ j'] by (simp add: eff) (simp add: x FileFinished)
  next
    case (SetStatus st t)
    have "rows (snd (status f v st t s)) u = Some j'"
      using Cons.prems by (subst status_row) (auto simp: j'_def SetStatus)
    then show ?thesis
      using Cons.IH [OF ready_status [OF Cons.prems(1)] _ j'] by (simp add: eff) (simp add: x SetStatus)
  qed
qed

end

definition jobs_ready :: "db \<Rightarrow> bool" where
  "jobs_ready d \<longleftrightarrow> 2 \<le> schema d \<and> jobs_ok d"

lemma job_map_unique:
  assumes "jobs_ok d" "job_map d u = Some j" "j' \<in> set (job_tracking d)" "uuid_eq (JobID j') u"
  shows "j' = j"
proof -
  have j: "uuid_eq (JobID j) u" "j \<in> set (job_tracking d)"
    using assms(2) find_JobID unfolding job_map_def by blast+
  have "JobID j' = JobID j" using j(1) assms(4) by (auto dest!: uuid_eq_imp_eq)
  then show ?thesis using assms(1,3) j(2) by (auto simp: jobs_ok_def distinct_map inj_on_def)
qed

lemma job_map_progress:
  assumes "jobs_ready d" "job_map d u = Some j" "int4_range (FilesDone j + 1)"
  shows "job_map (snd (UpdateJobProgress f v 1 d)) u =
     Some (if v = u \<and> reached f then j\<lparr>FilesDone := FilesDone j + 1\<rparr> else j)"
proof -
  let ?bad = "list_ex (\<lambda>j. uuid_eq (JobID j) v \<and> \<not> int4_range (FilesDone j + 1)) (job_tracking d)"
  have "v = u \<Longrightarrow> \<not> ?bad"
    using job_map_unique [OF _ assms(2)] assms by (auto simp: jobs_ready_def list_ex_iff)
  moreover have "snd (UpdateJobProgress f v 1 d) =
      (if ?bad \<or> \<not> reached f then d else jobs_rows v (\<lambda>j. j\<lparr>FilesDone := FilesDone j + 1\<rparr>) d)"
    using assms(1)
    by (cases ?bad) (simp_all add: UpdateJobProgress_def run_stmt_def update_progress_stmt_def
        reached_def jobs_ready_def split: fault.split)
  ultimately show ?thesis using assms(2) by (auto simp: job_map_rows)
qed

interpretation pg_jobs: job_table job_map jobs_ready UpdateJobProgress UpdateJobStatus pg_timestamp
proof
  fix s :: db and f v n
  assume "jobs_ready s"
  then show "jobs_ready (snd (UpdateJobProgress f v n s))"
    by (auto simp: UpdateJobProgress_def run_stmt_def update_progress_stmt_def jobs_ready_def
        jobs_ok_rows split: fault.split prod.split sum.split) (simp_all add: jobs_rows_def)
next
  fix s :: db and f v st t
  assume "jobs_ready s"
  then show "jobs_ready (snd (UpdateJobStatus f v st t s))"
    by (auto simp: UpdateJobStatus_def run_stmt_def update_status_stmt_def jobs_ready_def
        jobs_ok_rows split: fault.split prod.split sum.split) (simp_all add: jobs_rows_def)
next
  fix s :: db and u j f v st t
  assume "jobs_ready s" "job_map s u = Some j"
  then show "job_map (snd (UpdateJobStatus f v st t s)) u =
     Some (if v = u \<and> reached f then j\<lparr>Status := st, CompletedAt := map_option pg_timestamp t\<rparr> else j)"
    by (auto simp: UpdateJobStatus_def run_stmt_def update_status_stmt_def job_map_rows reached_def
        jobs_ready_def split: fault.split prod.split sum.split)
qed (rule job_map_progress)

section \<open>Properties\<close>

lemma GetJob_eq:
  "uuid_Scan s = Inr u \<Longrightarrow> 2 \<le> schema d \<Longrightarrow>
   GetJob uuid_Scan NoFault s d = (case job_map d u of None \<Rightarrow> Inl ErrJobNotFound | Some row \<Rightarrow> Inr row)"
  by (simp add: GetJob_def run_stmt_def select_job_stmt_def job_map_def split: option.split)

text \<open>
  C9: A job's row through its life: after \<open>CreateJob\<close> and any sequence of progress and status
  updates of this and of other jobs, some of which do not reach the database or lose their reply,
  looking the job up by its identifier's text gives the row as it was created with exactly the
  updates of this job that reached the database applied, in order; in particular \<open>files_read\<close>
  counts the finished files that reached it.
\<close>

theorem job_lifecycle:
  assumes "jobs_ready d" "Valid u" "uuid_Scan (uuid_String u) = Inr u"
    and "CreateJob u now NoFault dir n d = (Inr v, d1)"
    and "length us < 2 ^ 31" "d2 = run_updates UpdateJobProgress UpdateJobStatus us d1"
  shows "v = u \<and>
    GetJob uuid_Scan NoFault (uuid_String u) d2 =
      Inr (fold (apply_update pg_timestamp) (effective u us)
        \<lparr>JobID = u, Status = ''PROCESSING'', StartedAt = pg_timestamp now, CompletedAt = None,
         SourceDir = dir, TotalFiles = n, FilesDone = 0\<rparr>) \<and>
    (\<forall>row. GetJob uuid_Scan NoFault (uuid_String u) d2 = Inr row \<longrightarrow>
       FilesDone row = int (count_list (effective u us) FileFinished))"
proof -
  have ins: "insert_job_stmt u ''PROCESSING'' now dir n 0 d = Inr (v, d1)"
    using assms(4) by (simp add: CreateJob_def run_stmt_Inr)
  note row = job_map_insert [OF ins assms(2)]
  have "schema d1 = schema d" using ins by (auto simp: insert_job_stmt_def split: if_splits)
  then have "jobs_ready d1" using assms(1) row(4) by (simp add: jobs_ready_def)
  from pg_jobs.run_updates_row [OF this, of u _ us] row(1,3) assms(5)
  have "jobs_ready d2" "job_map d2 u = Some (fold (apply_update pg_timestamp) (effective u us)
        \<lparr>JobID = u, Status = ''PROCESSING'', StartedAt = pg_timestamp now, CompletedAt = None,
         SourceDir = dir, TotalFiles = n, FilesDone = 0\<rparr>)"
    unfolding assms(6) by simp_all
  then show ?thesis using row(1) assms(3) by (simp add: GetJob_eq jobs_ready_def fold_FilesDone)
qed

text \<open>
  C10: The job table refines a map from identifiers to rows: every reachable table has valid
  and distinct identifiers, a job that was created is new and is the only change to the map, a job
  that was deleted is removed and nothing else, an error leaves the map as it was or is a reply
  lost after the change, and a lookup reads the map.
\<close>

theorem job_store_refines_map:
  assumes "jobs_ok d" "Valid fresh" "2 \<le> schema d"
  shows "(case CreateJob fresh now f dir n d of
       (Inr u, d') \<Rightarrow> u = fresh \<and> job_map d u = None \<and> jobs_ok d' \<and>
          (\<exists>row. Status row = ''PROCESSING'' \<and> TotalFiles row = n \<and> FilesDone row = 0 \<and>
             job_map d' = (job_map d)(u \<mapsto> row))
     | (Inl e, d') \<Rightarrow> jobs_ok d' \<and> (d' = d \<or> (\<exists>m. f = FailAfter m))) \<and>
    (case DeleteJob uuid_Scan f s d of
       (None, d') \<Rightarrow> jobs_ok d' \<and> (\<exists>u. uuid_Scan s = Inr u \<and> job_map d' = (job_map d)(u := None))
     | (Some e, d') \<Rightarrow> jobs_ok d' \<and> (d' = d \<or> (\<exists>m. f = FailAfter m))) \<and>
    (uuid_Scan s = Inr u \<longrightarrow> GetJob uuid_Scan NoFault s d =
       (case job_map d u of None \<Rightarrow> Inl ErrJobNotFound | Some row \<Rightarrow> Inr row))"
proof -
  have create: "jobs_ok (snd (CreateJob fresh now f dir n d))"
    unfolding CreateJob_def
    by (rule run_stmt_preserves) (use job_map_insert(4) [OF _ assms(2)] assms(1) in auto)
  have created: "u = fresh \<and> job_map d u = None \<and>
      (\<exists>row. Status row = ''PROCESSING'' \<and> TotalFiles row = n \<and> FilesDone row = 0 \<and>
         job_map d' = (job_map d)(u \<mapsto> row))" if "CreateJob fresh now f dir n d = (Inr u, d')" for u d'
  proof -
    have "insert_job_stmt fresh ''PROCESSING'' now dir n 0 d = Inr (u, d')"
      using that by (simp add: CreateJob_def run_stmt_Inr)
    from job_map_insert(1-3) [OF this assms(2)] show ?thesis
      by (intro conjI exI [of _ "\<lparr>JobID = fresh, Status = ''PROCESSING'', StartedAt = pg_timestamp now,
        CompletedAt = None, SourceDir = dir, TotalFiles = n, FilesDone = 0\<rparr>"]) simp_all
  qed
  have lost: "CreateJob fresh now f dir n d = (Inl e, d') \<Longrightarrow> d' = d \<or> (\<exists>m. f = FailAfter m)" for e d'
    unfolding CreateJob_def by (auto dest: run_stmt_Inl)
  have delete: "jobs_ok (snd (DeleteJob uuid_Scan f s d))"
  proof (cases "uuid_Scan s")
    case (Inr v)
    have "jobs_ok (snd (run_stmt f (delete_job_stmt v) d))"
      by (rule run_stmt_preserves) (use job_map_delete(2) assms(1) in auto)
    then show ?thesis by (auto simp: DeleteJob_def Inr split: prod.split sum.split)
  qed (simp add: DeleteJob_def assms(1))
  have deleted: "\<exists>u. uuid_Scan s = Inr u \<and> job_map d' = (job_map d)(u := None)"
    if "DeleteJob uuid_Scan f s d = (None, d')" for d'
    using that
    by (auto simp: DeleteJob_def run_stmt_Inr dest: job_map_delete(1) split: sum.splits prod.splits)
  have kept: "DeleteJob uuid_Scan f s d = (Some e, d') \<Longrightarrow> d' = d \<or> (\<exists>m. f = FailAfter m)" for e d'
    by (auto simp: DeleteJob_def dest!: run_stmt_Inl split: sum.splits prod.splits)
  have "case CreateJob fresh now f dir n d of
       (Inr u, d') \<Rightarrow> u = fresh \<and> job_map d u = None \<and> jobs_ok d' \<and>
          (\<exists>row. Status row = ''PROCESSING'' \<and> TotalFiles row = n \<and> FilesDone row = 0 \<and>
             job_map d' = (job_map d)(u \<mapsto> row))
     | (Inl e, d') \<Rightarrow> jobs_ok d' \<and> (d' = d \<or> (\<exists>m. f = FailAfter m))"
  proof (cases "CreateJob fresh now f dir n d")
    case (Pair r d')
    then show ?thesis using create created [of _ d'] lost [of _ d'] by (cases r) auto
  qed
  moreover have "case DeleteJob uuid_Scan f s d of
       (None, d') \<Rightarrow> jobs_ok d' \<and> (\<exists>u. uuid_Scan s = Inr u \<and> job_map d' = (job_map d)(u := None))
     | (Some e, d') \<Rightarrow> jobs_ok d' \<and> (d' = d \<or> (\<exists>m. f = FailAfter m))"
  proof (cases "DeleteJob uuid_Scan f s d")
    case (Pair r d')
    then show ?thesis using delete deleted [of d'] kept [of _ d'] by (cases r) auto
  qed
  ultimately show ?thesis using GetJob_eq [OF _ assms(3), of uuid_Scan s u] by blast
qed

text \<open>
  C28: Deleting never works on a schema in which packets can be written: once a batch has been
  written, every \<open>DeleteJob\<close> fails and deletes no packet and no job, because it names the column
  \<open>job_id\<close> that the last migration renamed.
\<close>

theorem delete_excludes_bulk_copy:
  assumes "BulkDatabaseCopy (pg_CopyFrom inet_in f) rows d = (None, d1)" "rows \<noteq> []"
  shows "fst (DeleteJob uuid_Scan f' s d1) \<noteq> None \<and> snd (DeleteJob uuid_Scan f' s d1) = d1"
proof -
  have "6 \<le> schema d1"
    using assms
    by (auto simp: BulkDatabaseCopy_def pg_CopyFrom_def run_stmt_Inr copy_stmt_input
        split: prod.splits sum.splits)
  then have "delete_job_stmt u d1 = Inl undefined_column" for u
    by (simp add: delete_job_stmt_def packet_source_column_def)
  then show ?thesis by (simp add: DeleteJob_def run_stmt_def split: sum.split fault.split)
qed

text \<open>
  On the schemas that still have the column, a job that recorded a source file cannot be
  deleted either: its row in \<open>source_files\<close> refers to the job, and nothing deletes it.
\<close>

theorem delete_blocked_by_source_file:
  assumes "3 \<le> schema d" "job_exists u d" "file \<in> set (source_files d)" "uuid_eq (sf_job file) u"
    and "uuid_Scan s = Inr u"
  shows "(\<exists>e. fst (DeleteJob uuid_Scan f s d) = Some (ErrDatabase e)) \<and> snd (DeleteJob uuid_Scan f s d) = d"
proof -
  have "delete_job_stmt u d \<in> {Inl undefined_column, Inl foreign_key_violation}"
    using assms(1-4) by (auto simp: delete_job_stmt_def list_ex_iff)
  then show ?thesis using assms(5) by (auto simp: DeleteJob_def run_stmt_def split: fault.split)
qed

text \<open>
  Listing: without a failure \<open>GetAllJobs\<close> returns the whole table, the most recently
  started job first; but when the connection breaks after \<open>k\<close> rows it returns those \<open>k\<close> rows as a
  complete and successful answer.
\<close>

theorem list_jobs_result:
  assumes "2 \<le> schema d"
  shows "(\<exists>js. GetAllJobs (query_jobs NoFault None d) = Inr js \<and> mset js = mset (job_tracking d) \<and>
       sorted_wrt (\<lambda>a b. StartedAt a \<ge> StartedAt b) js \<and>
       (\<forall>k e. GetAllJobs (query_jobs NoFault (Some (k, e)) d) = Inr (take k js)))"
proof -
  have scan: "scan_job_rows acc (map Inr js) = Inr (acc @ js)" for acc js
    by (induction js arbitrary: acc) simp_all
  have "sorted_wrt (\<lambda>a b. StartedAt a \<ge> StartedAt b) (sort_key (\<lambda>j. - StartedAt j) (job_tracking d))"
    using sorted_sort_key [of "\<lambda>j. - StartedAt j" "job_tracking d"] by (simp add: sorted_map)
  then show ?thesis
    using assms by (simp add: GetAllJobs_def query_jobs_def run_stmt_def select_jobs_stmt_def scan)
qed

section \<open>Witnesses\<close>

definition sample_job :: UUID where
  "sample_job = \<lparr>UBytes = replicate 16 1, Valid = True\<rparr>"

definition empty_db :: "nat \<Rightarrow> db" where
  "empty_db v = \<lparr>schema = v, packet_logs = [], job_tracking = [], source_files = [], capture_sessions = []\<rparr>"

definition one_job_db :: "nat \<Rightarrow> db" where
  "one_job_db v = snd (CreateJob sample_job 0 NoFault ''/data'' 3 (empty_db v))"

definition sample_scan :: "string \<Rightarrow> string + UUID" where
  "sample_scan s = (if s = ''job'' then Inr sample_job else Inl ''cannot parse'')"

lemma sample_scan_job [simp]: "sample_scan ''job'' = Inr sample_job"
  by (simp add: sample_scan_def)

lemma sample_job_Valid [simp]: "Valid sample_job"
  by (simp add: sample_job_def)

lemma one_job_db_create:
  "2 \<le> v \<Longrightarrow> CreateJob sample_job 0 NoFault ''/data'' 3 (empty_db v) = (Inr sample_job, one_job_db v)"
  by (simp add: one_job_db_def CreateJob_def run_stmt_def insert_job_stmt_def empty_db_def job_exists_def)

lemma job_lifecycle_witness:
  "\<exists>row. GetJob sample_scan NoFault ''job''
      (run_updates UpdateJobProgress UpdateJobStatus
        [(NoFault, sample_job, FileFinished), (FailBefore ''reset'', sample_job, FileFinished),
         (NoFault, sample_job, SetStatus ''COMPLETED'' (Some 5000))] (one_job_db 6)) = Inr row \<and>
    FilesDone row = 1 \<and> Status row = ''COMPLETED''"
proof -
  have ready: "jobs_ready (empty_db 6)" by (simp add: jobs_ready_def jobs_ok_def empty_db_def)
  show ?thesis
    using job_lifecycle [OF ready sample_job_Valid, of sample_scan "\<lambda>_. ''job''", OF _
        one_job_db_create _ refl, of "[(NoFault, sample_job, FileFinished),
          (FailBefore ''reset'', sample_job, FileFinished),
          (NoFault, sample_job, SetStatus ''COMPLETED'' (Some 5000))]"]
    by (simp add: effective_def reached_def)
qed

lemma job_store_refines_map_witness:
  "jobs_ok (snd (CreateJob sample_job 0 NoFault ''/data'' 3 (empty_db 6)))"
proof -
  have ok: "jobs_ok (empty_db 6)" "2 \<le> schema (empty_db 6)" by (simp_all add: jobs_ok_def empty_db_def)
  show ?thesis
    using job_store_refines_map [OF ok(1) sample_job_Valid ok(2), where now = 0 and f = NoFault
        and dir = "''/data''" and n = 3 and uuid_Scan = sample_scan and s = "''job''"]
    by (simp add: one_job_db_create)
qed

definition sample_stored_row :: PacketRow where
  "sample_stored_row =
     \<lparr>Time = 0, SrcIP = Addr4 [10, 5, 7, 113], DstIP = Addr4 [10, 5, 7, 113], SrcPort = 1, DstPort = 2,
      Protocol = ''TCP'', PLength = 54, TCPFlags = 2, SourceID = sample_job\<rparr>"

lemma sample_copy:
  "BulkDatabaseCopy (pg_CopyFrom sample_inet_in NoFault) [sample_stored_row] (one_job_db 6) =
     (None, (one_job_db 6)\<lparr>packet_logs := [sample_stored_row]\<rparr>)"
proof -
  have "schema (one_job_db 6) = 6" "packet_logs (one_job_db 6) = []"
    by (simp_all add: one_job_db_def CreateJob_def run_stmt_def insert_job_stmt_def empty_db_def job_exists_def)
  moreover have "as_stored sample_inet_in sample_stored_row = Some sample_stored_row"
    by (simp add: as_stored_def sample_inet_in_def sample_stored_row_def pg_timestamp_def dotted_def
        digits.simps digit_char_def)
  ultimately have "copy_stmt sample_inet_in [''packet_logs''] copy_columns (map input_row [sample_stored_row])
      (one_job_db 6) = Inr (1, (one_job_db 6)\<lparr>packet_logs := [sample_stored_row]\<rparr>)"
    unfolding copy_stmt_input by simp
  then show ?thesis by (simp add: BulkDatabaseCopy_def pg_CopyFrom_def run_stmt_def)
qed

lemma delete_excludes_bulk_copy_witness:
  "fst (DeleteJob sample_scan NoFault ''job'' ((one_job_db 6)\<lparr>packet_logs := [sample_stored_row]\<rparr>)) \<noteq> None"
  using delete_excludes_bulk_copy [OF sample_copy, of sample_scan NoFault "''job''"] by simp

lemma delete_blocked_by_source_file_witness:
  "\<exists>e. fst (DeleteJob sample_scan NoFault ''job''
     ((one_job_db 5)\<lparr>source_files := [\<lparr>sf_job = sample_job, file_path = ''a.pcap'', checksum = ''0''\<rparr>]\<rparr>)) =
     Some (ErrDatabase e)"
  using delete_blocked_by_source_file [of "(one_job_db 5)\<lparr>source_files :=
      [\<lparr>sf_job = sample_job, file_path = ''a.pcap'', checksum = ''0''\<rparr>]\<rparr>" sample_job _ sample_scan "''job''" NoFault]
  by (simp add: one_job_db_def CreateJob_def run_stmt_def insert_job_stmt_def empty_db_def job_exists_def)

lemma list_jobs_result_witness:
  "GetAllJobs (query_jobs NoFault (Some (0, ConnError ''reset'')) (one_job_db 6)) = Inr []"
  using list_jobs_result [of "one_job_db 6"]
  by (auto simp: one_job_db_def CreateJob_def run_stmt_def insert_job_stmt_def empty_db_def job_exists_def)

end
