(* ===== verification/PcapJobs.thy ===== *)
theory PcapJobs
  imports PcapReader JobStore
begin

text \<open>
  The outer loop of \<open>PcapWorker\<close> (\<open>go-sniffer/internal/worker/ingestion.go\<close>): one reader taking
  files from its channel until it is closed or the job is cancelled, extracting each and recording
  the finished ones in the job's row.
\<close>

section \<open>The code\<close>

text \<open>
  One received path: whether the context is found cancelled before it is opened, the file, the
  choices of the \<open>select\<close>s inside, and what the connection does to the progress update.
\<close>

record received =
  found_cancelled :: bool
  path_file :: pcap_file
  path_selects :: "nat \<Rightarrow> bool"
  path_fault :: fault

text \<open>The batches sent, the growth of \<open>totalRead\<close>, and the tables; \<open>None\<close> is a panic.\<close>

fun PcapWorker ::
  "(8 word \<Rightarrow> string) \<Rightarrow> UUID \<Rightarrow> received list \<Rightarrow> db \<Rightarrow> (PacketRow list list \<times> nat \<times> db) option"
where
  "PcapWorker pS jobID [] d = Some ([], 0, d)"
| "PcapWorker pS jobID (p # jobs) d =
     (if found_cancelled p then Some ([], 0, d)
      else
        (let (err, st) = extract_file pS jobID (path_selects p) (path_file p) in
         if err = FilePanic then None
         else
           (let d1 = (if err = FileDone then snd (UpdateJobProgress (path_fault p) jobID 1 d) else d) in
            (case PcapWorker pS jobID jobs d1 of
               None \<Rightarrow> None
             | Some (batches, n, d') \<Rightarrow> Some (sent st @ batches, totalRead st + n, d')))))"

section \<open>What the loop does to the job\<close>

text \<open>The received paths up to the first cancellation, and the progress updates of those.\<close>

definition handled :: "received list \<Rightarrow> received list" where
  "handled jobs = takeWhile (\<lambda>p. \<not> found_cancelled p) jobs"

definition extracted :: "(8 word \<Rightarrow> string) \<Rightarrow> UUID \<Rightarrow> received \<Rightarrow> file_result \<times> extraction" where
  "extracted pS jobID p = extract_file pS jobID (path_selects p) (path_file p)"

definition file_updates ::
  "(8 word \<Rightarrow> string) \<Rightarrow> UUID \<Rightarrow> received list \<Rightarrow> (fault \<times> UUID \<times> job_update) list"
where
  "file_updates pS jobID jobs =
     map (\<lambda>p. (path_fault p, jobID, FileFinished))
       (filter (\<lambda>p. fst (extracted pS jobID p) = FileDone) (handled jobs))"

lemma PcapWorker_result:
  "PcapWorker pS jobID jobs d = Some (batches, n, d') \<Longrightarrow>
   batches = concat (map (sent \<circ> snd \<circ> extracted pS jobID) (handled jobs)) \<and>
   n = sum_list (map (totalRead \<circ> snd \<circ> extracted pS jobID) (handled jobs)) \<and>
   d' = run_updates UpdateJobProgress UpdateJobStatus (file_updates pS jobID jobs) d"
proof (induction jobs arbitrary: d batches n)
  case Nil
  then show ?case by (simp add: handled_def file_updates_def)
next
  case (Cons p jobs)
  show ?case
  proof (cases "found_cancelled p")
    case True
    then show ?thesis using Cons.prems by (simp add: handled_def file_updates_def)
  next
    case False
    obtain err st where ex: "extract_file pS jobID (path_selects p) (path_file p) = (err, st)" by fastforce
    define d1 where "d1 = (if err = FileDone then snd (UpdateJobProgress (path_fault p) jobID 1 d) else d)"
    obtain bs m where rest: "PcapWorker pS jobID jobs d1 = Some (bs, m, d')"
      and b: "batches = sent st @ bs" "n = totalRead st + m"
      using Cons.prems False ex by (auto simp: d1_def [symmetric] Let_def split: if_splits option.splits)
    show ?thesis
      using Cons.IH [OF rest] b ex False
      by (simp add: handled_def file_updates_def extracted_def d1_def)
  qed
qed

lemma read_loop_totals:
  "totalRead st = length (concat (sent st)) \<Longrightarrow>
   totalRead (snd (read_loop pS u stop rs st)) = length (concat (sent (snd (read_loop pS u stop rs st))))"
proof (induction pS u stop rs st rule: read_loop.induct)
  case (1 pS u stop rs st)
  then show ?case
    by (subst (1 2) read_loop.simps)
      (auto simp: Let_def finish_file_def send_batch_def split: read_result.split list.split option.split)
qed

lemma extract_totals: "totalRead (snd (extract_file pS u stop f)) = length (concat (sent (snd (extract_file pS u stop f))))"
  by (simp add: extract_file_def Let_def read_loop_totals split: pcap_file.split)

lemma sum_list_concat_map: "sum_list (map length (concat (map f xs))) = sum_list (map (\<lambda>x. sum_list (map length (f x))) xs)"
  by (induction xs) simp_all

lemma fold_FileFinished:
  "Status ((apply_update stamp FileFinished ^^ n) j) = Status j \<and>
   FilesDone ((apply_update stamp FileFinished ^^ n) j) = FilesDone j + int n"
  by (induction n) simp_all

section \<open>Properties\<close>

text \<open>
  One reader over all its files: the batches it sends are those of the files it received
  before it saw the cancellation, file after file, \<open>totalRead\<close> grows by exactly the packets in
  them, and \<open>files_read\<close> of the job grows by one for each file that was extracted completely and
  whose update reached the database; files that failed or were interrupted are not counted.
\<close>

theorem reader_progress:
  assumes "PcapWorker pS jobID jobs d = Some (batches, n, d')"
    and "jobs_ready d" "job_map d jobID = Some j" "0 \<le> FilesDone j" "FilesDone j + int (length jobs) < 2 ^ 31"
  shows "n = length (concat batches) \<and>
    batches = concat (map (sent \<circ> snd \<circ> extracted pS jobID) (handled jobs)) \<and>
    (\<exists>j'. job_map d' jobID = Some j' \<and> Status j' = Status j \<and>
       FilesDone j' = FilesDone j + int (length (filter
         (\<lambda>p. fst (extracted pS jobID p) = FileDone \<and> reached (path_fault p)) (handled jobs))))"
proof -
  note res = PcapWorker_result [OF assms(1)]
  have n: "n = length (concat batches)"
    unfolding conjunct1 [OF res] conjunct1 [OF conjunct2 [OF res]]
    by (simp add: length_concat extract_totals extracted_def comp_def sum_list_concat_map)
  let ?us = "file_updates pS jobID jobs"
  have "length ?us \<le> length jobs"
    by (simp add: file_updates_def handled_def) (meson le_trans length_filter_le length_takeWhile_le)
  then have "job_map d' jobID = Some (fold (apply_update pg_timestamp) (effective jobID ?us) j)"
    using pg_jobs.run_updates_row [OF assms(2,3,4), of ?us] assms(5) res by simp
  moreover have "effective jobID ?us = replicate (length (filter
         (\<lambda>p. fst (extracted pS jobID p) = FileDone \<and> reached (path_fault p)) (handled jobs))) FileFinished"
    by (simp add: effective_def file_updates_def filter_map comp_def map_replicate_const conj_commute)
  ultimately show ?thesis using n res by (simp add: fold_FileFinished)
qed

lemma reader_progress_witness:
  "\<exists>bs n d'. PcapWorker (\<lambda>_. ''TCP'') sample_job
      [\<lparr>found_cancelled = False, path_file = Records [], path_selects = \<lambda>_. False, path_fault = NoFault\<rparr>]
      (one_job_db 6) = Some (bs, n, d') \<and> n = length (concat bs) \<and>
    (\<exists>j. job_map d' sample_job = Some j \<and> FilesDone j = 1)"
proof -
  let ?jobs = "[\<lparr>found_cancelled = False, path_file = Records [], path_selects = \<lambda>_. False, path_fault = NoFault\<rparr>]"
  obtain bs n d' where run: "PcapWorker (\<lambda>_. ''TCP'') sample_job ?jobs (one_job_db 6) = Some (bs, n, d')"
    by (simp add: extract_file_def read_loop.simps finish_file_def)
  have job: "jobs_ready (one_job_db 6)" "map_option FilesDone (job_map (one_job_db 6) sample_job) = Some 0"
    by (simp_all add: jobs_ready_def jobs_ok_def one_job_db_def CreateJob_def run_stmt_def
        insert_job_stmt_def empty_db_def job_exists_def job_map_def)
  from job(2) obtain j where j: "job_map (one_job_db 6) sample_job = Some j" "FilesDone j = 0" by auto
  from reader_progress [OF run job(1) j(1)] j(2) show ?thesis
    unfolding run
    by (auto simp: handled_def extracted_def extract_file_def read_loop.simps finish_file_def reached_def)
qed

end
