(* ===== verification/SourceFiles.thy ===== *)
theory SourceFiles
  imports JobStore
begin

text \<open>
  \<open>CheckAndInsertSourceFile\<close> of \<open>go-sniffer/internal/storage/database.go\<close>: the worker that lets a
  file into the pipeline only if the checksum of its first 65536 bytes is new. The file system is
  what opening and reading each path gives; SHA-256 printed in hexadecimal is a parameter.
\<close>

section \<open>The code\<close>

datatype file_read = OpenFails string | ReadFails string | Bytes "8 word list"

definition insert_source_stmt :: "UUID \<Rightarrow> string \<Rightarrow> string \<Rightarrow> unit stmt" where
  "insert_source_stmt jobID path digest d =
     (if schema d < 3 then Inl undefined_table
      else if list_ex (\<lambda>s. checksum s = digest) (source_files d) then Inl unique_violation
      else if Valid jobID \<and> \<not> job_exists jobID d then Inl foreign_key_violation
      else Inr ((), d\<lparr>source_files := source_files d @
             [\<lparr>sf_job = jobID, file_path = path, checksum = digest\<rparr>]\<rparr>))"

text \<open>One iteration up to the send: whether the file is new, and the tables afterwards.\<close>

definition check_file ::
  "(8 word list \<Rightarrow> string) \<Rightarrow> UUID \<Rightarrow> fault \<Rightarrow> string \<Rightarrow> file_read \<Rightarrow> db \<Rightarrow> bool \<times> db"
where
  "check_file sha256_hex jobID f filePath file d =
     (case file of
        OpenFails _ \<Rightarrow> (False, d)
      | ReadFails _ \<Rightarrow> (False, d)
      | Bytes content \<Rightarrow>
          (let digest = sha256_hex (take 65536 content) in
           case run_stmt f (insert_source_stmt jobID filePath digest) d of
             (Inl e, d') \<Rightarrow> (False, d')
           | (Inr _, d') \<Rightarrow> (True, d')))"

text \<open>
  The loop over the channel. Each element carries what the file system and the connection do for
  it; \<open>stop k\<close> says that the \<open>k\<close>-th send takes the \<open>ctx.Done()\<close> branch. The result is the list
  of paths sent to \<open>results\<close>.
\<close>

fun CheckAndInsertSourceFile ::
  "(8 word list \<Rightarrow> string) \<Rightarrow> UUID \<Rightarrow> (nat \<Rightarrow> bool) \<Rightarrow> (string \<times> file_read \<times> fault) list \<Rightarrow>
   nat \<Rightarrow> db \<Rightarrow> string list \<times> db"
where
  "CheckAndInsertSourceFile sha256_hex jobID stop [] k d = ([], d)"
| "CheckAndInsertSourceFile sha256_hex jobID stop ((filePath, file, f) # files) k d =
     (case check_file sha256_hex jobID f filePath file d of
        (False, d') \<Rightarrow> CheckAndInsertSourceFile sha256_hex jobID stop files k d'
      | (True, d') \<Rightarrow>
          (if stop k then ([], d')
           else
             (let (results, d'') = CheckAndInsertSourceFile sha256_hex jobID stop files (Suc k) d'
              in (filePath # results, d''))))"

section \<open>What is recorded\<close>

definition sources_ok :: "db \<Rightarrow> bool" where
  "sources_ok d \<longleftrightarrow> distinct (map checksum (source_files d))"

lemma insert_source_effect:
  "insert_source_stmt u p digest d = Inr (x, d') \<Longrightarrow>
   source_files d' = source_files d @ [\<lparr>sf_job = u, file_path = p, checksum = digest\<rparr>] \<and>
   digest \<notin> checksum ` set (source_files d) \<and> schema d' = schema d \<and>
   job_tracking d' = job_tracking d \<and> packet_logs d' = packet_logs d"
  by (auto simp: insert_source_stmt_def list_ex_iff split: if_splits)

lemma check_file_frame:
  "check_file sha u f p file d = (ok, d') \<Longrightarrow>
   schema d' = schema d \<and> job_tracking d' = job_tracking d \<and> packet_logs d' = packet_logs d \<and>
   set (source_files d) \<subseteq> set (source_files d') \<and> (sources_ok d \<longrightarrow> sources_ok d')"
  by (auto simp: check_file_def sources_ok_def Let_def run_stmt_def dest!: insert_source_effect
      split: file_read.splits prod.splits sum.splits fault.splits)

lemma check_file_accepts:
  "check_file sha u f p file d = (True, d') \<Longrightarrow>
   \<exists>c. file = Bytes c \<and> sha (take 65536 c) \<notin> checksum ` set (source_files d) \<and>
       source_files d' = source_files d @ [\<lparr>sf_job = u, file_path = p, checksum = sha (take 65536 c)\<rparr>]"
  by (auto simp: check_file_def Let_def run_stmt_Inr dest!: insert_source_effect
      split: file_read.splits prod.splits sum.splits)

lemma check_file_known:
  "sha (take 65536 c) \<in> checksum ` set (source_files d) \<Longrightarrow> \<not> fst (check_file sha u f p (Bytes c) d)"
  by (cases "check_file sha u f p (Bytes c) d"; cases "fst (check_file sha u f p (Bytes c) d)")
    (auto dest!: check_file_accepts)

lemma check_all_frame:
  "CheckAndInsertSourceFile sha u stop files k d = (res, d') \<Longrightarrow>
   schema d' = schema d \<and> job_tracking d' = job_tracking d \<and> packet_logs d' = packet_logs d \<and>
   set (source_files d) \<subseteq> set (source_files d') \<and> (sources_ok d \<longrightarrow> sources_ok d')"
proof (induction files arbitrary: k d res)
  case Nil
  then show ?case by simp
next
  case (Cons x files)
  obtain p fl f where x: "x = (p, fl, f)" by (cases x)
  obtain ok d1 where c: "check_file sha u f p fl d = (ok, d1)" by fastforce
  note frame = check_file_frame [OF c]
  show ?case
  proof (cases "ok \<and> stop k")
    case True
    then show ?thesis using Cons.prems c frame by (simp add: x)
  next
    case False
    obtain k' res' where "CheckAndInsertSourceFile sha u stop files k' d1 = (res', d')"
      using Cons.prems c False by (cases ok) (auto simp: x split: prod.splits)
    from Cons.IH [OF this] frame show ?thesis by auto
  qed
qed

text \<open>The paths whose checksum is new, in order: the first file of each checksum.\<close>

fun new_files :: "(8 word list \<Rightarrow> string) \<Rightarrow> string set \<Rightarrow> (string \<times> file_read \<times> fault) list \<Rightarrow> string list"
where
  "new_files sha seen [] = []"
| "new_files sha seen ((p, Bytes c, f) # files) =
     (if sha (take 65536 c) \<in> seen then new_files sha seen files
      else p # new_files sha (insert (sha (take 65536 c)) seen) files)"
| "new_files sha seen ((p, _, f) # files) = new_files sha seen files"

lemma check_all_new_files:
  assumes "3 \<le> schema d" "job_exists u d" "\<forall>(p, file, f) \<in> set files. f = NoFault" "\<And>k. \<not> stop k"
  shows "fst (CheckAndInsertSourceFile sha u stop files k d) =
    new_files sha (checksum ` set (source_files d)) files"
  using assms(1-3)
proof (induction files arbitrary: k d)
  case Nil
  then show ?case by simp
next
  case (Cons x files)
  obtain p fl where x: "x = (p, fl, NoFault)" using Cons.prems(3) by (cases x) auto
  have rest: "\<forall>(p, file, f) \<in> set files. f = NoFault" using Cons.prems(3) by simp
  show ?case
  proof (cases fl)
    case (Bytes c)
    let ?s = "sha (take 65536 c)"
    let ?d = "d\<lparr>source_files := source_files d @ [\<lparr>sf_job = u, file_path = p, checksum = ?s\<rparr>]\<rparr>"
    show ?thesis
    proof (cases "?s \<in> checksum ` set (source_files d)")
      case True
      then have "check_file sha u NoFault p (Bytes c) d = (False, d)"
        using Cons.prems(1)
        by (auto simp: check_file_def Let_def run_stmt_def insert_source_stmt_def list_ex_iff image_iff)
      then show ?thesis using True Cons.IH [OF Cons.prems(1,2) rest] by (simp add: x Bytes)
    next
      case False
      then have "check_file sha u NoFault p (Bytes c) d = (True, ?d)"
        using Cons.prems(1,2)
        by (auto simp: check_file_def Let_def run_stmt_def insert_source_stmt_def list_ex_iff image_iff)
      moreover have "job_exists u ?d" using Cons.prems(2) by (simp add: job_exists_def)
      ultimately show ?thesis
        using False assms(4) Cons.IH [OF _ _ rest, of ?d "Suc k"] Cons.prems(1)
        by (auto simp: x Bytes split: prod.split)
    qed
  qed (use Cons.IH [OF Cons.prems(1,2) rest] in \<open>simp_all add: x check_file_def\<close>)
qed

section \<open>Properties\<close>

text \<open>
  C29: Duplicate detection: with a working database the files let through are exactly the first
  file of each checksum that no earlier job recorded, in the order of the channel; files that
  cannot be opened or read are left out.
\<close>

theorem source_files_let_through:
  assumes "3 \<le> schema d" "job_exists u d" "\<forall>(p, file, f) \<in> set files. f = NoFault" "\<And>k. \<not> stop k"
  shows "fst (CheckAndInsertSourceFile sha u stop files k d) =
    new_files sha (checksum ` set (source_files d)) files"
  by (rule check_all_new_files [OF assms])

text \<open>
  Only the first 65536 bytes count, and a file is recorded before it is processed: once a
  path has been let through, no later run of any job, whatever happened to the first one, lets
  through a file whose content starts with the same 65536 bytes, however it goes on.
\<close>

theorem same_prefix_is_skipped_forever:
  assumes "check_file sha u f p (Bytes c) d = (True, d1)"
    and "CheckAndInsertSourceFile sha v stop files k d1 = (res, d2)"
    and "take 65536 c' = take 65536 c"
  shows "\<not> fst (check_file sha w f' p' (Bytes c') d2)"
proof -
  have "sha (take 65536 c) \<in> checksum ` set (source_files d1)"
    using check_file_accepts [OF assms(1)] by auto
  moreover have "set (source_files d1) \<subseteq> set (source_files d2)"
    using check_all_frame [OF assms(2)] by simp
  ultimately have "sha (take 65536 c') \<in> checksum ` set (source_files d2)" by (auto simp: assms(3))
  then show ?thesis by (rule check_file_known)
qed

lemma source_files_let_through_witness:
  "fst (CheckAndInsertSourceFile (map (char_of \<circ> unat)) sample_job (\<lambda>_. False)
      [(''a'', Bytes [1, 2], NoFault), (''b'', OpenFails ''no such file'', NoFault),
       (''c'', Bytes [1, 2], NoFault), (''d'', Bytes [1, 3], NoFault)] 0 (one_job_db 6)) = [''a'', ''d'']"
proof -
  have db: "3 \<le> schema (one_job_db 6)" "job_exists sample_job (one_job_db 6)" "source_files (one_job_db 6) = []"
    by (simp_all add: one_job_db_def CreateJob_def run_stmt_def insert_job_stmt_def empty_db_def job_exists_def)
  show ?thesis
    using source_files_let_through [OF db(1,2), of "[(''a'', Bytes [1, 2], NoFault),
        (''b'', OpenFails ''no such file'', NoFault), (''c'', Bytes [1, 2], NoFault),
        (''d'', Bytes [1, 3], NoFault)]" "\<lambda>_. False" "map (char_of \<circ> unat)" 0] db(3)
    by simp
qed

lemma same_prefix_is_skipped_forever_witness:
  "\<not> fst (check_file (\<lambda>_. ''0'') sample_job NoFault ''b'' (Bytes (replicate 65536 0 @ [1]))
      (snd (check_file (\<lambda>_. ''0'') sample_job NoFault ''a'' (Bytes (replicate 65536 0 @ [2])) (one_job_db 6))))"
proof -
  obtain d1 where d1: "check_file (\<lambda>_. ''0'') sample_job NoFault ''a''
      (Bytes (replicate 65536 0 @ [2])) (one_job_db 6) = (True, d1)"
    by (simp add: check_file_def run_stmt_def insert_source_stmt_def one_job_db_def CreateJob_def
        insert_job_stmt_def empty_db_def job_exists_def)
  show ?thesis
    using same_prefix_is_skipped_forever [OF d1, of sample_job "\<lambda>_. False" "[]" 0 "[]" d1
        "replicate 65536 0 @ [1]" sample_job NoFault "''b''"]
    by (simp add: d1)
qed

end
