(* ===== verification/Saver.thy ===== *)
theory Saver
  imports JobStore
begin

text \<open>
  The writers of both programs: \<open>go-sniffer/internal/worker/saver.go\<close>, which takes batches from a
  channel, and \<open>live-sniffer/internal/workers/saver.go\<close>, which reads them from Kafka. A run of one
  worker is the list of what its selects and reads give; every write carries the connection's
  fault, the time it took and whether the throttle after it was interrupted.
\<close>

section \<open>The throttle\<close>

definition baseBackoffThreshold :: nanos where "baseBackoffThreshold = 100 * Millisecond"
definition minBackoff :: nanos where "minBackoff = 25 * Millisecond"
definition maxBackoff :: nanos where "maxBackoff = 3 * Second"
definition multiplier :: int where "multiplier = 3"

lemmas backoff_consts = baseBackoffThreshold_def minBackoff_def maxBackoff_def multiplier_def

text \<open>The new backoff, and whether the worker sleeps for it.\<close>

definition throttle :: "nanos \<Rightarrow> nanos \<Rightarrow> nanos \<times> bool" where
  "throttle writeDuration currentBackoff =
     (if writeDuration > baseBackoffThreshold
      then (let b = go_int (currentBackoff * multiplier) in (if b > maxBackoff then maxBackoff else b, True))
      else (minBackoff, False))"

definition backoff_after :: "nanos list \<Rightarrow> nanos" where
  "backoff_after ds = fold (\<lambda>d b. fst (throttle d b)) ds minBackoff"

section \<open>go-sniffer's worker\<close>

record write_env =
  copy_fault :: fault
  status_fault :: fault
  write_time :: nanos
  failed_at :: nanos
  sleep_interrupted :: bool

datatype saver_event = CtxDone | StreamClosed | Incoming "PacketRow list" write_env

record saver =
  localSaved :: nat
  currentBackoff :: nanos

datatype saver_exit = Waiting | Stopped | Aborted

text \<open>
  The loop, from a state of the worker and of the store: how it ended (\<open>Waiting\<close> when the list of
  events is used up, \<open>Aborted\<close> when it called \<open>cancel\<close>), what it counted and slept. \<open>CopyFrom\<close> and
  \<open>set_failed\<close> are the two uses of the database. The deferred send of \<open>localSaved\<close> to \<open>results\<close> is
  the final value of that field.
\<close>

fun PacketSaverWorker ::
  "(fault \<Rightarrow> string list \<Rightarrow> string list \<Rightarrow> pg_value list list \<Rightarrow> 's \<Rightarrow> (db_error + int) \<times> 's) \<Rightarrow>
   (fault \<Rightarrow> nanos \<Rightarrow> 's \<Rightarrow> 's) \<Rightarrow> saver_event list \<Rightarrow> saver \<Rightarrow> 's \<Rightarrow>
   saver_exit \<times> saver \<times> nanos list \<times> 's"
where
  "PacketSaverWorker CopyFrom set_failed [] w s = (Waiting, w, [], s)"
| "PacketSaverWorker CopyFrom set_failed (CtxDone # es) w s = (Stopped, w, [], s)"
| "PacketSaverWorker CopyFrom set_failed (StreamClosed # es) w s = (Stopped, w, [], s)"
| "PacketSaverWorker CopyFrom set_failed (Incoming incomingBatch env # es) w s =
     (case BulkDatabaseCopy (CopyFrom (copy_fault env)) incomingBatch s of
        (Some e, s') \<Rightarrow> (Aborted, w, [], set_failed (status_fault env) (failed_at env) s')
      | (None, s') \<Rightarrow>
          (let (b, sleeps) = throttle (write_time env) (currentBackoff w);
               w' = \<lparr>localSaved = localSaved w + length incomingBatch, currentBackoff = b\<rparr>
           in if sleeps \<and> sleep_interrupted env then (Stopped, w', [b], s')
              else
                (let (x, w'', bs, s'') = PacketSaverWorker CopyFrom set_failed es w' s'
                 in (x, w'', (if sleeps then b # bs else bs), s''))))"

definition new_saver :: saver where
  "new_saver = \<lparr>localSaved = 0, currentBackoff = minBackoff\<rparr>"

section \<open>live-sniffer's worker\<close>

text \<open>
  Each iteration looks at the context and then reads a message; a read error, a timeout or a
  message that does not parse is skipped.
\<close>

datatype 'm kafka_event = LiveCtxDone | ReadError | Message 'm write_env

fun LivePacketSaverWorker ::
  "('m \<Rightarrow> PacketRow list option) \<Rightarrow>
   (fault \<Rightarrow> string list \<Rightarrow> string list \<Rightarrow> pg_value list list \<Rightarrow> 's \<Rightarrow> (db_error + int) \<times> 's) \<Rightarrow>
   (fault \<Rightarrow> nanos \<Rightarrow> 's \<Rightarrow> 's) \<Rightarrow> 'm kafka_event list \<Rightarrow> saver \<Rightarrow> 's \<Rightarrow>
   saver_exit \<times> saver \<times> nanos list \<times> 's"
where
  "LivePacketSaverWorker unmarshal CopyFrom onFailure [] w s = (Waiting, w, [], s)"
| "LivePacketSaverWorker unmarshal CopyFrom onFailure (LiveCtxDone # es) w s = (Stopped, w, [], s)"
| "LivePacketSaverWorker unmarshal CopyFrom onFailure (ReadError # es) w s =
     LivePacketSaverWorker unmarshal CopyFrom onFailure es w s"
| "LivePacketSaverWorker unmarshal CopyFrom onFailure (Message msg env # es) w s =
     (case unmarshal msg of
        None \<Rightarrow> LivePacketSaverWorker unmarshal CopyFrom onFailure es w s
      | Some batch \<Rightarrow>
          (case BulkDatabaseCopy (CopyFrom (copy_fault env)) batch s of
             (Some e, s') \<Rightarrow> (Aborted, w, [], onFailure (status_fault env) (failed_at env) s')
           | (None, s') \<Rightarrow>
               (let (b, sleeps) = throttle (write_time env) (currentBackoff w);
                    w' = \<lparr>localSaved = localSaved w + length batch, currentBackoff = b\<rparr>
                in if sleeps \<and> sleep_interrupted env then (Stopped, w', [b], s')
                   else
                     (let (x, w'', bs, s'') = LivePacketSaverWorker unmarshal CopyFrom onFailure es w' s'
                      in (x, w'', (if sleeps then b # bs else bs), s'')))))"

section \<open>Facts about the throttle\<close>

lemma throttle_range:
  "minBackoff \<le> b \<Longrightarrow> b \<le> maxBackoff \<Longrightarrow>
   minBackoff \<le> fst (throttle d b) \<and> fst (throttle d b) \<le> maxBackoff"
  by (auto simp: throttle_def backoff_consts Let_def go_int_id)

lemma throttle_slow:
  assumes "minBackoff \<le> b" "b \<le> maxBackoff" "baseBackoffThreshold < d"
  shows "throttle d b = (min (3 * b) maxBackoff, True)"
  using assms by (auto simp: throttle_def backoff_consts Let_def go_int_id min_def)

lemma backoff_after_snoc: "backoff_after (ds @ [d]) = fst (throttle d (backoff_after ds))"
  by (simp add: backoff_after_def)

lemma backoff_after_range: "minBackoff \<le> backoff_after ds \<and> backoff_after ds \<le> maxBackoff"
proof (induction ds rule: rev_induct)
  case Nil
  then show ?case by (simp add: backoff_after_def backoff_consts)
next
  case (snoc d ds)
  then show ?case using throttle_range by (simp add: backoff_after_snoc)
qed

lemma backoff_after_slow:
  assumes "\<forall>d \<in> set ds. baseBackoffThreshold < d"
  shows "backoff_after (fast @ ds) = min (backoff_after fast * 3 ^ length ds) maxBackoff"
  using assms
proof (induction ds rule: rev_induct)
  case Nil
  then show ?case using backoff_after_range [of fast] by (simp add: min_def)
next
  case (snoc d ds)
  have "backoff_after (fast @ ds @ [d]) = min (3 * backoff_after (fast @ ds)) maxBackoff"
    using snoc.prems throttle_slow [of "backoff_after (fast @ ds)" d] backoff_after_range [of "fast @ ds"]
      backoff_after_snoc [of "fast @ ds" d] by simp
  also have "\<dots> = min (backoff_after fast * 3 ^ length (ds @ [d])) maxBackoff"
    using snoc backoff_after_range [of fast] by (simp add: min_def backoff_consts)
  finally show ?case .
qed

fun incoming :: "saver_event list \<Rightarrow> PacketRow list list" where
  "incoming [] = []"
| "incoming (Incoming b env # es) = b # incoming es"
| "incoming (_ # es) = incoming es"

text \<open>A run of the Kafka worker, as the events of the channel worker.\<close>

fun live_events :: "('m \<Rightarrow> PacketRow list option) \<Rightarrow> 'm kafka_event list \<Rightarrow> saver_event list" where
  "live_events unmarshal [] = []"
| "live_events unmarshal (LiveCtxDone # es) = CtxDone # live_events unmarshal es"
| "live_events unmarshal (ReadError # es) = live_events unmarshal es"
| "live_events unmarshal (Message m env # es) =
     (case unmarshal m of
        None \<Rightarrow> live_events unmarshal es
      | Some batch \<Rightarrow> Incoming batch env # live_events unmarshal es)"

section \<open>What a worker counts and stores\<close>

text \<open>
  The two workers rely on the writer's contract, and on the failure report leaving the packets
  alone.
\<close>

locale saver_store =
  fixes CopyFrom :: "fault \<Rightarrow> string list \<Rightarrow> string list \<Rightarrow> pg_value list list \<Rightarrow> 's \<Rightarrow> (db_error + int) \<times> 's"
    and stored :: "'s \<Rightarrow> PacketRow list"
    and storable :: "PacketRow list \<Rightarrow> PacketRow list option"
    and report :: "fault \<Rightarrow> nanos \<Rightarrow> 's \<Rightarrow> 's"
  assumes writer: "bulk_writer (CopyFrom f) stored storable"
    and report_stored: "stored (report f t s) = stored s"
    and storable_length: "storable rows = Some rs \<Longrightarrow> length rs = length rows"
begin

text \<open>What one run did: the batches it wrote are counted and stored, whatever ended it.\<close>

definition accounted :: "saver_exit \<Rightarrow> PacketRow list \<Rightarrow> saver \<Rightarrow> saver \<Rightarrow> 's \<Rightarrow> 's \<Rightarrow> bool" where
  "accounted x written w w' s s' \<longleftrightarrow>
     localSaved w' = localSaved w + length written \<and>
     (\<exists>rs. storable written = Some rs \<and>
        (stored s' = stored s @ rs \<or>
         x = Aborted \<and> (\<exists>lost ls. storable lost = Some ls \<and> stored s' = stored s @ rs @ ls)))"

lemma accounted_step:
  assumes "storable batch = Some bs" "stored s1 = stored s @ bs" "localSaved w1 = localSaved w + length batch"
    and "accounted x written w1 w' s1 s'"
  shows "accounted x (batch @ written) w w' s s'"
  using assms by (auto simp: accounted_def bulk_writer.storable_append [OF writer])

lemma accounted_0: "stored s' = stored s \<Longrightarrow> accounted x [] w w s s'"
  by (simp add: accounted_def bulk_writer.storable_Nil [OF writer])

lemma accounted_failed:
  assumes "BulkDatabaseCopy (CopyFrom f) batch s = (Some e, s1)"
  shows "accounted Aborted [] w w s (report f' t s1)"
  using bulk_writer.bulk_error [OF writer assms]
  by (auto simp: accounted_def bulk_writer.storable_Nil [OF writer] report_stored)

lemma written_batch:
  "BulkDatabaseCopy (CopyFrom f) batch s = (None, s1) \<Longrightarrow>
   \<exists>bs. storable batch = Some bs \<and> stored s1 = stored s @ bs"
  using bulk_writer.bulk_ok [OF writer] by blast

lemma saver_accounting:
  "PacketSaverWorker CopyFrom report es w s = (x, w', sl, s') \<Longrightarrow>
   \<exists>n. accounted x (concat (take n (incoming es))) w w' s s' \<and> (x = Waiting \<longrightarrow> length (incoming es) \<le> n)"
proof (induction es arbitrary: w s sl)
  case Nil
  then show ?case using accounted_0 [of s s x w] by simp
next
  case (Cons ev es)
  have stop: "accounted x (concat (take 0 (incoming (ev # es)))) w w s s" by (simp add: accounted_0)
  show ?case
  proof (cases ev)
    case (Incoming batch env)
    obtain r s1 where b: "BulkDatabaseCopy (CopyFrom (copy_fault env)) batch s = (r, s1)" by fastforce
    show ?thesis
    proof (cases r)
      case (Some e)
      then show ?thesis
        using Cons.prems b accounted_failed [OF b [unfolded Some]]
        by (intro exI [of _ 0]) (auto simp: Incoming)
    next
      case None
      obtain bs where bs: "storable batch = Some bs" "stored s1 = stored s @ bs"
        using written_batch b None by blast
      obtain bo sleeps where t: "throttle (write_time env) (currentBackoff w) = (bo, sleeps)" by fastforce
      define w1 where "w1 = \<lparr>localSaved = localSaved w + length batch, currentBackoff = bo\<rparr>"
      note step = accounted_step [OF bs, of w1 w, simplified w1_def saver.simps, OF refl, folded w1_def]
      show ?thesis
      proof (cases "sleeps \<and> sleep_interrupted env")
        case True
        then have "w' = w1" "s' = s1" "x = Stopped" using Cons.prems b None t by (auto simp: Incoming w1_def)
        then show ?thesis using step [OF accounted_0 [of s1 s1]] by (intro exI [of _ 1]) (simp add: Incoming)
      next
        case False
        then obtain sl' where "PacketSaverWorker CopyFrom report es w1 s1 = (x, w', sl', s')"
          using Cons.prems b None t by (auto simp: Incoming w1_def Let_def split: prod.splits)
        from Cons.IH [OF this] obtain n where
          n: "accounted x (concat (take n (incoming es))) w1 w' s1 s'" "x = Waiting \<longrightarrow> length (incoming es) \<le> n"
          by blast
        then show ?thesis using step [OF n(1)] by (intro exI [of _ "Suc n"]) (simp add: Incoming)
      qed
    qed
  qed (use Cons.prems stop in \<open>auto intro: exI [of _ 0]\<close>)
qed

end

definition report_failed :: "UUID \<Rightarrow> fault \<Rightarrow> nanos \<Rightarrow> db \<Rightarrow> db" where
  "report_failed jobID f now d = snd (UpdateJobStatus f jobID ''FAILED'' (Some now) d)"

lemma those_length: "those xs = Some ys \<Longrightarrow> length ys = length xs"
  by (induction xs arbitrary: ys) (auto split: option.splits)

lemma status_frame:
  "packet_logs (snd (UpdateJobStatus f u st t d)) = packet_logs d \<and>
   source_files (snd (UpdateJobStatus f u st t d)) = source_files d \<and>
   schema (snd (UpdateJobStatus f u st t d)) = schema d"
  by (auto simp: UpdateJobStatus_def run_stmt_def update_status_stmt_def jobs_rows_def
      split: fault.split sum.split prod.split)

interpretation go_saver: saver_store "pg_CopyFrom inet_in" packet_logs
    "\<lambda>rows. those (map (as_stored inet_in) rows)" "report_failed jobID"
  for inet_in jobID
proof (rule saver_store.intro)
  show "bulk_writer (pg_CopyFrom inet_in f) packet_logs (\<lambda>rows. those (map (as_stored inet_in) rows))" for f
    by (rule pg.bulk_writer_axioms)
qed (simp_all add: report_failed_def status_frame those_length)

section \<open>Properties\<close>

text \<open>
  C34: The throttle of both savers: after any writes followed by \<open>n\<close> writes slower than
  100 ms in a row, the backoff is three times larger for each of them and at most 3 s; it always
  lies between 25 ms and 3 s, so the 64-bit product never wraps, and a fast write resets it.
\<close>

theorem backoff_law:
  "25 * Millisecond \<le> backoff_after ds \<and> backoff_after ds \<le> 3 * Second \<and>
   (d \<le> 100 * Millisecond \<longrightarrow> backoff_after (ds @ [d]) = 25 * Millisecond) \<and>
   (d > 100 * Millisecond \<longrightarrow>
      backoff_after (ds @ [d] @ replicate n d) = min (backoff_after ds * 3 ^ Suc n) (3 * Second))"
proof -
  have "backoff_after (ds @ [d] @ replicate n d) = min (backoff_after ds * 3 ^ Suc n) maxBackoff"
    if "d > 100 * Millisecond"
    using backoff_after_slow [of "[d] @ replicate n d" ds] that by (simp add: baseBackoffThreshold_def)
  moreover have "backoff_after (ds @ [d]) = minBackoff" if "d \<le> 100 * Millisecond"
    using that by (simp add: backoff_after_snoc throttle_def baseBackoffThreshold_def)
  ultimately show ?thesis using backoff_after_range [of ds] by (simp add: minBackoff_def maxBackoff_def)
qed

text \<open>
  What a saver of go-sniffer reports is what it stored: however its run ends, the count
  it sends to \<open>results\<close> grew by exactly the rows of the first batches it received, these rows are in
  the table in that order, and nothing else is, except that a write that failed with a lost reply
  may have stored rows that are not counted.
\<close>

theorem saver_counts_what_it_stores:
  assumes "PacketSaverWorker (pg_CopyFrom inet_in) (report_failed jobID) es new_saver d = (x, w, sl, d')"
  shows "\<exists>n rs. those (map (as_stored inet_in) (concat (take n (incoming es)))) = Some rs \<and>
    localSaved w = length rs \<and>
    (x = Waiting \<longrightarrow> length (incoming es) \<le> n) \<and>
    (packet_logs d' = packet_logs d @ rs \<or>
     x = Aborted \<and> (\<exists>ls. packet_logs d' = packet_logs d @ rs @ ls))"
proof -
  obtain n where n: "go_saver.accounted inet_in x (concat (take n (incoming es))) new_saver w d d'"
    "x = Waiting \<longrightarrow> length (incoming es) \<le> n"
    using go_saver.saver_accounting [OF assms] by blast
  then obtain rs where "those (map (as_stored inet_in) (concat (take n (incoming es)))) = Some rs"
    "packet_logs d' = packet_logs d @ rs \<or>
     x = Aborted \<and> (\<exists>ls. packet_logs d' = packet_logs d @ rs @ ls)"
    "localSaved w = length (concat (take n (incoming es)))"
    unfolding go_saver.accounted_def by (auto simp: new_saver_def)
  moreover from this(1) have "length rs = length (concat (take n (incoming es)))"
    by (auto dest!: those_length)
  ultimately show ?thesis using n(2) by metis
qed

text \<open>
  live-sniffer's saver is go-sniffer's on the batches that its messages hold: read errors
  and messages that do not parse are skipped without any effect.
\<close>

theorem live_saver_is_go_saver:
  "LivePacketSaverWorker unmarshal CopyFrom report es w s =
   PacketSaverWorker CopyFrom report (live_events unmarshal es) w s"
  by (induction es arbitrary: w s rule: live_events.induct) (auto simp: Let_def split: option.split prod.split)

definition quick_write :: write_env where
  "quick_write = \<lparr>copy_fault = NoFault, status_fault = NoFault, write_time = 5 * Millisecond, failed_at = 0,
     sleep_interrupted = False\<rparr>"

lemma saver_counts_what_it_stores_witness:
  "\<exists>n rs. localSaved (fst (snd (PacketSaverWorker (pg_CopyFrom sample_inet_in) (report_failed sample_job)
      [Incoming [sample_stored_row] quick_write, StreamClosed] new_saver (one_job_db 6)))) = length rs \<and>
    those (map (as_stored sample_inet_in) (concat (take n [[sample_stored_row]]))) = Some rs"
proof -
  obtain x w sl d' where run: "PacketSaverWorker (pg_CopyFrom sample_inet_in) (report_failed sample_job)
      [Incoming [sample_stored_row] quick_write, StreamClosed] new_saver (one_job_db 6) = (x, w, sl, d')"
    by (metis prod_cases4)
  from saver_counts_what_it_stores [OF run] show ?thesis unfolding run by auto
qed

lemma backoff_law_witness:
  "backoff_after ([] @ [Second] @ replicate 2 Second) = 675 * Millisecond"
proof -
  have "backoff_after [] = 25 * Millisecond" by (simp add: backoff_after_def minBackoff_def)
  then show ?thesis using backoff_law [of "[]" Second 2] by simp
qed

end
