(* ===== verification/Pool.thy ===== *)
theory Pool
  imports SourceFiles Saver PcapReader
begin

text \<open>
  \<open>ProcessWithPool\<close> of \<open>go-sniffer/internal/worker/workerpools.go\<close> with its goroutines as a step
  relation: the duplicate checkers, the capture readers, the savers, the two goroutines that close
  the channels, and the main routine that feeds the paths, collects the counts and completes the
  job. Each step is one channel operation, one database statement or one look at the context; the
  order of the steps is arbitrary, every database statement can fail, and the job can be cancelled
  at any time.
\<close>

section \<open>State\<close>

text \<open>The arguments of one call and the parts of the outside world the goroutines read.\<close>

record pool_cfg =
  cfg_job :: UUID
  cfg_paths :: "string list"
  cfg_readers :: int
  cfg_savers :: int
  cfg_preChecks :: int
  cfg_bytes :: "string \<Rightarrow> file_read"
  cfg_pcap :: "string \<Rightarrow> pcap_file"
  cfg_sha :: "8 word list \<Rightarrow> string"
  cfg_proto :: "8 word \<Rightarrow> string"
  cfg_inet :: "string \<Rightarrow> Addr option"

text \<open>
  Where each goroutine stands. A reader in \<open>RSend\<close> still has batches of its file to send; in
  \<open>RCount\<close> it has sent one and not yet added it to the total. A saver carries what it counted.
\<close>

datatype checker = CWait | CHave string | CPut string | CDone

datatype reader =
  RWait | RGot string | RSend string "PacketRow list list" | RCount string nat "PacketRow list list" | RDone

datatype saver_state =
  SWait nat | SWrite nat "PacketRow list" | SPause nat | SFailed nat | SExit nat | SDone

datatype main_state = MFeed "string list" | MCollect nat nat | MFinal nat | MReturned nat

record pool =
  cancelled :: bool
  files :: "string list"
  files_closed :: bool
  validFiles :: "string list"
  valid_closed :: bool
  packetStream :: "PacketRow list list"
  stream_closed :: bool
  finalCounts :: "nat list"
  checkers :: "checker list"
  readers :: "reader list"
  savers :: "saver_state list"
  totalReadRows :: nat
  totalSavedRows :: nat
  main :: main_state
  database :: db
  accepted :: "string list" \<comment> \<open>history: the paths that entered \<open>validFiles\<close>\<close>

text \<open>The batches the extraction of a file sends, see \<open>pcap_file_extraction\<close>.\<close>

definition file_batches :: "pool_cfg \<Rightarrow> string \<Rightarrow> PacketRow list list" where
  "file_batches c p =
     (case cfg_pcap c p of
        Records rs \<Rightarrow>
          (case file_rows (cfg_proto c) (cfg_job c) rs of
             Some rows \<Rightarrow> chunks batchLimit rows | None \<Rightarrow> [])
      | _ \<Rightarrow> [])"

definition file_opens :: "pool_cfg \<Rightarrow> string \<Rightarrow> bool" where
  "file_opens c p \<longleftrightarrow> (case cfg_pcap c p of Records _ \<Rightarrow> True | _ \<Rightarrow> False)"

definition stream_capacity :: nat where "stream_capacity = 100"

text \<open>
  The beginning: \<open>make(chan int, workerSaverCount)\<close> panics on a negative count (\<open>None\<close>); the
  checkers are started before the paths are fed.
\<close>

definition pool_start :: "pool_cfg \<Rightarrow> db \<Rightarrow> pool option" where
  "pool_start c d =
     (if cfg_savers c < 0 then None
      else Some \<lparr>cancelled = False, files = [], files_closed = False, validFiles = [],
        valid_closed = False, packetStream = [], stream_closed = False, finalCounts = [],
        checkers = replicate (nat (cfg_preChecks c)) CWait, readers = [], savers = [],
        totalReadRows = 0, totalSavedRows = 0, main = MFeed (cfg_paths c), database = d, accepted = []\<rparr>)"

abbreviation feeding :: "pool \<Rightarrow> bool" where
  "feeding s \<equiv> (case main s of MFeed _ \<Rightarrow> True | _ \<Rightarrow> False)"

section \<open>Steps\<close>

inductive pool_step :: "pool_cfg \<Rightarrow> pool \<Rightarrow> pool \<Rightarrow> bool" for c :: pool_cfg where
  feed: "main s = MFeed (p # ps) \<Longrightarrow>
    pool_step c s (s\<lparr>main := MFeed ps, files := files s @ [p]\<rparr>)"
| spawn: "main s = MFeed [] \<Longrightarrow>
    pool_step c s (s\<lparr>main := MCollect 0 0, files_closed := True,
      savers := replicate (nat (cfg_savers c)) (SWait 0),
      readers := replicate (nat (cfg_readers c)) RWait\<rparr>)"
\<comment> \<open>\<open>CheckAndInsertSourceFile\<close>\<close>
| check_take: "i < length (checkers s) \<Longrightarrow> checkers s ! i = CWait \<Longrightarrow> files s = p # ps \<Longrightarrow>
    pool_step c s (s\<lparr>checkers := (checkers s)[i := CHave p], files := ps\<rparr>)"
| check_end: "i < length (checkers s) \<Longrightarrow> checkers s ! i = CWait \<Longrightarrow> files s = [] \<Longrightarrow> files_closed s \<Longrightarrow>
    pool_step c s (s\<lparr>checkers := (checkers s)[i := CDone]\<rparr>)"
| check_insert: "i < length (checkers s) \<Longrightarrow> checkers s ! i = CHave p \<Longrightarrow>
    check_file (cfg_sha c) (cfg_job c) f p (cfg_bytes c p) (database s) = (isNew, d') \<Longrightarrow>
    pool_step c s (s\<lparr>checkers := (checkers s)[i := if isNew then CPut p else CWait], database := d'\<rparr>)"
| check_put: "i < length (checkers s) \<Longrightarrow> checkers s ! i = CPut p \<Longrightarrow> \<not> valid_closed s \<Longrightarrow>
    length (validFiles s) < length (cfg_paths c) \<Longrightarrow>
    pool_step c s (s\<lparr>checkers := (checkers s)[i := CWait], validFiles := validFiles s @ [p],
      accepted := accepted s @ [p]\<rparr>)"
| check_quit: "i < length (checkers s) \<Longrightarrow> checkers s ! i = CPut p \<Longrightarrow> cancelled s \<Longrightarrow>
    pool_step c s (s\<lparr>checkers := (checkers s)[i := CDone]\<rparr>)"
| close_valid: "\<not> feeding s \<Longrightarrow> \<forall>x \<in> set (checkers s). x = CDone \<Longrightarrow> \<not> valid_closed s \<Longrightarrow>
    pool_step c s (s\<lparr>valid_closed := True\<rparr>)"
\<comment> \<open>\<open>PcapWorker\<close>\<close>
| read_take: "i < length (readers s) \<Longrightarrow> readers s ! i = RWait \<Longrightarrow> validFiles s = p # ps \<Longrightarrow>
    pool_step c s (s\<lparr>readers := (readers s)[i := RGot p], validFiles := ps\<rparr>)"
| read_end: "i < length (readers s) \<Longrightarrow> readers s ! i = RWait \<Longrightarrow> validFiles s = [] \<Longrightarrow> valid_closed s \<Longrightarrow>
    pool_step c s (s\<lparr>readers := (readers s)[i := RDone]\<rparr>)"
| read_quit: "i < length (readers s) \<Longrightarrow> readers s ! i = RGot p \<Longrightarrow> cancelled s \<Longrightarrow>
    pool_step c s (s\<lparr>readers := (readers s)[i := RDone]\<rparr>)"
| read_open: "i < length (readers s) \<Longrightarrow> readers s ! i = RGot p \<Longrightarrow> \<not> cancelled s \<Longrightarrow>
    pool_step c s (s\<lparr>readers := (readers s)[i := RSend p (file_batches c p)]\<rparr>)"
| read_send: "i < length (readers s) \<Longrightarrow> readers s ! i = RSend p (b # bs) \<Longrightarrow> \<not> stream_closed s \<Longrightarrow>
    length (packetStream s) < stream_capacity \<Longrightarrow>
    pool_step c s (s\<lparr>readers := (readers s)[i := RCount p (length b) bs],
      packetStream := packetStream s @ [b]\<rparr>)"
| read_count: "i < length (readers s) \<Longrightarrow> readers s ! i = RCount p n bs \<Longrightarrow>
    pool_step c s (s\<lparr>readers := (readers s)[i := RSend p bs], totalReadRows := totalReadRows s + n\<rparr>)"
| read_abort: "i < length (readers s) \<Longrightarrow> readers s ! i = RSend p bs \<Longrightarrow> cancelled s \<Longrightarrow>
    pool_step c s (s\<lparr>readers := (readers s)[i := RWait]\<rparr>)"
| read_done: "i < length (readers s) \<Longrightarrow> readers s ! i = RSend p [] \<Longrightarrow>
    d' = (if file_opens c p then snd (UpdateJobProgress f (cfg_job c) 1 (database s)) else database s) \<Longrightarrow>
    pool_step c s (s\<lparr>readers := (readers s)[i := RWait], database := d'\<rparr>)"
| close_stream: "\<not> feeding s \<Longrightarrow> \<forall>x \<in> set (readers s). x = RDone \<Longrightarrow> \<not> stream_closed s \<Longrightarrow>
    pool_step c s (s\<lparr>stream_closed := True\<rparr>)"
\<comment> \<open>\<open>PacketSaverWorker\<close>\<close>
| save_stop: "i < length (savers s) \<Longrightarrow> savers s ! i = SWait n \<Longrightarrow> cancelled s \<Longrightarrow>
    pool_step c s (s\<lparr>savers := (savers s)[i := SExit n]\<rparr>)"
| save_end: "i < length (savers s) \<Longrightarrow> savers s ! i = SWait n \<Longrightarrow> packetStream s = [] \<Longrightarrow> stream_closed s \<Longrightarrow>
    pool_step c s (s\<lparr>savers := (savers s)[i := SExit n]\<rparr>)"
| save_take: "i < length (savers s) \<Longrightarrow> savers s ! i = SWait n \<Longrightarrow> packetStream s = b # bs \<Longrightarrow>
    pool_step c s (s\<lparr>savers := (savers s)[i := SWrite n b], packetStream := bs\<rparr>)"
| save_ok: "i < length (savers s) \<Longrightarrow> savers s ! i = SWrite n b \<Longrightarrow>
    BulkDatabaseCopy (pg_CopyFrom (cfg_inet c) f) b (database s) = (None, d') \<Longrightarrow>
    pool_step c s (s\<lparr>savers := (savers s)[i := SPause (n + length b)], database := d',
      totalSavedRows := totalSavedRows s + length b\<rparr>)"
| save_fail: "i < length (savers s) \<Longrightarrow> savers s ! i = SWrite n b \<Longrightarrow>
    BulkDatabaseCopy (pg_CopyFrom (cfg_inet c) f) b (database s) = (Some e, d') \<Longrightarrow>
    pool_step c s (s\<lparr>savers := (savers s)[i := SFailed n], database := d'\<rparr>)"
| save_report: "i < length (savers s) \<Longrightarrow> savers s ! i = SFailed n \<Longrightarrow>
    d' = report_failed (cfg_job c) f now (database s) \<Longrightarrow>
    pool_step c s (s\<lparr>savers := (savers s)[i := SExit n], database := d', cancelled := True\<rparr>)"
| save_again: "i < length (savers s) \<Longrightarrow> savers s ! i = SPause n \<Longrightarrow>
    pool_step c s (s\<lparr>savers := (savers s)[i := SWait n]\<rparr>)"
| save_interrupt: "i < length (savers s) \<Longrightarrow> savers s ! i = SPause n \<Longrightarrow> cancelled s \<Longrightarrow>
    pool_step c s (s\<lparr>savers := (savers s)[i := SExit n]\<rparr>)"
| save_result: "i < length (savers s) \<Longrightarrow> savers s ! i = SExit n \<Longrightarrow>
    length (finalCounts s) < nat (cfg_savers c) \<Longrightarrow>
    pool_step c s (s\<lparr>savers := (savers s)[i := SDone], finalCounts := finalCounts s @ [n]\<rparr>)"
\<comment> \<open>the rest of \<open>ProcessWithPool\<close>\<close>
| collect: "main s = MCollect k t \<Longrightarrow> k < nat (cfg_savers c) \<Longrightarrow> finalCounts s = n # ns \<Longrightarrow>
    pool_step c s (s\<lparr>main := MCollect (Suc k) (t + n), finalCounts := ns\<rparr>)"
| complete: "main s = MCollect k t \<Longrightarrow> \<not> k < nat (cfg_savers c) \<Longrightarrow>
    d' = snd (UpdateJobStatus f (cfg_job c) ''COMPLETED'' (Some now) (database s)) \<Longrightarrow>
    pool_step c s (s\<lparr>main := MFinal t, database := d'\<rparr>)"
| return: "main s = MFinal t \<Longrightarrow> pool_step c s (s\<lparr>main := MReturned t, cancelled := True\<rparr>)"
\<comment> \<open>\<open>HandleDeleteJob\<close> calls the job's cancel function\<close>
| cancel: "\<not> cancelled s \<Longrightarrow> pool_step c s (s\<lparr>cancelled := True\<rparr>)"

definition pool_reachable :: "pool_cfg \<Rightarrow> db \<Rightarrow> pool \<Rightarrow> bool" where
  "pool_reachable c d s \<longleftrightarrow> (\<exists>s0. pool_start c d = Some s0 \<and> (pool_step c)\<^sup>*\<^sup>* s0 s)"

lemma pool_reachable_induct [consumes 1, case_names start step]:
  assumes "pool_reachable c d s"
    and "\<And>s0. pool_start c d = Some s0 \<Longrightarrow> I s0"
    and "\<And>s s'. pool_reachable c d s \<Longrightarrow> I s \<Longrightarrow> pool_step c s s' \<Longrightarrow> I s'"
  shows "I s"
proof -
  obtain s0 where s0: "pool_start c d = Some s0" "(pool_step c)\<^sup>*\<^sup>* s0 s"
    using assms(1) by (auto simp: pool_reachable_def)
  from s0(2) have "pool_reachable c d s \<and> I s"
    by (induction rule: rtranclp_induct)
      (use s0(1) assms(2,3) in \<open>auto simp: pool_reachable_def intro: rtranclp.rtrancl_into_rtrancl\<close>)
  then show ?thesis by blast
qed

lemma pool_reachable_step: "pool_reachable c d s \<Longrightarrow> pool_step c s s' \<Longrightarrow> pool_reachable c d s'"
  unfolding pool_reachable_def by (meson rtranclp.rtrancl_into_rtrancl)

end
