(* ===== verification/PoolProps.thy ===== *)
theory PoolProps
  imports Pool
begin

text \<open>
  What every run of the pipeline keeps, and how every run ends: the invariants of the step
  relation of \<open>Pool\<close>, its measure, and the properties.
\<close>

section \<open>Channels and goroutines\<close>

definition all_are :: "'a \<Rightarrow> 'a list \<Rightarrow> bool" where
  "all_are a xs \<longleftrightarrow> (\<forall>x \<in> set xs. x = a)"

lemma not_all_are: "i < length xs \<Longrightarrow> xs ! i \<noteq> a \<Longrightarrow> \<not> all_are a xs"
  by (auto simp: all_are_def)

definition inv_control :: "pool \<Rightarrow> bool" where
  "inv_control s \<longleftrightarrow>
     (files_closed s \<longleftrightarrow> \<not> feeding s) \<and>
     (valid_closed s \<longrightarrow> \<not> feeding s \<and> all_are CDone (checkers s)) \<and>
     (stream_closed s \<longrightarrow> \<not> feeding s \<and> all_are RDone (readers s)) \<and>
     (feeding s \<longrightarrow> readers s = [] \<and> savers s = [] \<and> finalCounts s = [])"

lemma inv_control_start: "pool_start c d = Some s0 \<Longrightarrow> inv_control s0"
  by (auto simp: pool_start_def inv_control_def split: if_splits)

lemma inv_control_step: "pool_step c s s' \<Longrightarrow> inv_control s \<Longrightarrow> inv_control s'"
  by (induction rule: pool_step.induct)
    (auto simp: inv_control_def all_are_def [symmetric] dest: not_all_are)

lemma inv_control: "pool_reachable c d s \<Longrightarrow> inv_control s"
  by (induction rule: pool_reachable_induct) (auto intro: inv_control_start inv_control_step)

text \<open>Counting the goroutines and the free places of the buffered channels.\<close>

definition busy_checker :: "checker \<Rightarrow> nat" where
  "busy_checker x = (case x of CHave _ \<Rightarrow> 1 | CPut _ \<Rightarrow> 1 | _ \<Rightarrow> 0)"

definition live_saver :: "saver_state \<Rightarrow> nat" where
  "live_saver x = (if x = SDone then 0 else 1)"

fun unfed :: "main_state \<Rightarrow> nat" where
  "unfed (MFeed ps) = length ps"
| "unfed _ = 0"

fun taken :: "pool_cfg \<Rightarrow> main_state \<Rightarrow> nat" where
  "taken c (MFeed _) = 0"
| "taken c (MCollect k _) = k"
| "taken c (MFinal _) = nat (cfg_savers c)"
| "taken c (MReturned _) = nat (cfg_savers c)"

definition inv_files :: "pool_cfg \<Rightarrow> pool \<Rightarrow> bool" where
  "inv_files c s \<longleftrightarrow>
     unfed (main s) + length (files s) + sum_list (map busy_checker (checkers s)) + length (validFiles s)
       \<le> length (cfg_paths c)"

lemma inv_files_start: "pool_start c d = Some s0 \<Longrightarrow> inv_files c s0"
  by (auto simp: pool_start_def inv_files_def busy_checker_def sum_list_replicate split: if_splits)

lemma inv_files_step: "pool_step c s s' \<Longrightarrow> inv_files c s \<Longrightarrow> inv_files c s'"
  by (induction rule: pool_step.induct)
    (auto simp: inv_files_def others_update busy_checker_def dest!: others_split [where f = busy_checker])

lemma inv_files: "pool_reachable c d s \<Longrightarrow> inv_files c s"
  by (induction rule: pool_reachable_induct) (auto intro: inv_files_start inv_files_step)

definition inv_counts :: "pool_cfg \<Rightarrow> pool \<Rightarrow> bool" where
  "inv_counts c s \<longleftrightarrow>
     (\<not> feeding s \<longrightarrow>
        taken c (main s) + length (finalCounts s) + sum_list (map live_saver (savers s)) = nat (cfg_savers c))"

lemma inv_counts_start: "pool_start c d = Some s0 \<Longrightarrow> inv_counts c s0"
  by (auto simp: pool_start_def inv_counts_def split: if_splits)

lemma inv_counts_step: "pool_step c s s' \<Longrightarrow> inv_counts c s \<Longrightarrow> inv_control s \<Longrightarrow> inv_counts c s'"
  by (induction rule: pool_step.induct)
    (auto simp: inv_counts_def inv_control_def others_update live_saver_def sum_list_replicate
      simp del: sum_list_eq_0_iff length_0_conv dest!: others_split [where f = live_saver])

lemma inv_counts: "pool_reachable c d s \<Longrightarrow> inv_counts c s"
  by (induction rule: pool_reachable_induct) (auto intro: inv_counts_start inv_counts_step inv_control)

definition inv_sizes :: "pool_cfg \<Rightarrow> pool \<Rightarrow> bool" where
  "inv_sizes c s \<longleftrightarrow> length (checkers s) = nat (cfg_preChecks c) \<and>
     (\<not> feeding s \<longrightarrow> length (savers s) = nat (cfg_savers c) \<and> length (readers s) = nat (cfg_readers c))"

lemma inv_sizes: "pool_reachable c d s \<Longrightarrow> inv_sizes c s"
proof (induction rule: pool_reachable_induct)
  case (start s0)
  then show ?case by (auto simp: pool_start_def inv_sizes_def split: if_splits)
next
  case (step s s')
  from step(2,3) show ?case by (induction rule: pool_step.induct) (auto simp: inv_sizes_def)
qed

text \<open>Without a cancellation a goroutine ends only when its input is closed and used up.\<close>

definition ended_checker :: "checker \<Rightarrow> nat" where
  "ended_checker x = (if x = CDone then 1 else 0)"

definition ended_reader :: "reader \<Rightarrow> nat" where
  "ended_reader x = (if x = RDone then 1 else 0)"

definition ended_saver :: "saver_state \<Rightarrow> nat" where
  "ended_saver x = (case x of SExit _ \<Rightarrow> 1 | SDone \<Rightarrow> 1 | _ \<Rightarrow> 0)"

definition ends_checkers :: "pool \<Rightarrow> bool" where
  "ends_checkers s \<longleftrightarrow> (\<not> cancelled s \<longrightarrow> 0 < sum_list (map ended_checker (checkers s)) \<longrightarrow>
     files_closed s \<and> files s = [])"

definition ends_readers :: "pool \<Rightarrow> bool" where
  "ends_readers s \<longleftrightarrow> (\<not> cancelled s \<longrightarrow> 0 < sum_list (map ended_reader (readers s)) \<longrightarrow>
     valid_closed s \<and> validFiles s = [])"

definition ends_savers :: "pool \<Rightarrow> bool" where
  "ends_savers s \<longleftrightarrow> (\<not> cancelled s \<longrightarrow> 0 < sum_list (map ended_saver (savers s)) \<longrightarrow>
     stream_closed s \<and> packetStream s = [])"

lemma ends_checkers_step: "pool_step c s s' \<Longrightarrow> ends_checkers s \<Longrightarrow> inv_control s \<Longrightarrow> ends_checkers s'"
  by (induction rule: pool_step.induct)
    (auto simp: ends_checkers_def inv_control_def others_update ended_checker_def
      simp del: sum_list_eq_0_iff dest!: others_split [where f = ended_checker])

lemma ends_readers_step: "pool_step c s s' \<Longrightarrow> ends_readers s \<Longrightarrow> inv_control s \<Longrightarrow> ends_readers s'"
  by (induction rule: pool_step.induct)
    (auto simp: ends_readers_def others_update sum_list_replicate ended_reader_def
      simp del: sum_list_eq_0_iff dest!: others_split [where f = ended_reader])

lemma ends_savers_step: "pool_step c s s' \<Longrightarrow> ends_savers s \<Longrightarrow> inv_control s \<Longrightarrow> ends_savers s'"
  by (induction rule: pool_step.induct)
    (auto simp: ends_savers_def others_update sum_list_replicate ended_saver_def
      simp del: sum_list_eq_0_iff dest!: others_split [where f = ended_saver])

lemma inv_ends: "pool_reachable c d s \<Longrightarrow> ends_checkers s \<and> ends_readers s \<and> ends_savers s"
proof (induction rule: pool_reachable_induct)
  case (start s0)
  then show ?case
    by (auto simp: pool_start_def ends_checkers_def ends_readers_def ends_savers_def ended_checker_def
        sum_list_replicate split: if_splits)
next
  case (step s s')
  then show ?case using inv_control ends_checkers_step ends_readers_step ends_savers_step by blast
qed

section \<open>The counts\<close>

fun main_total :: "main_state \<Rightarrow> nat" where
  "main_total (MFeed _) = 0"
| "main_total (MCollect _ t) = t"
| "main_total (MFinal t) = t"
| "main_total (MReturned t) = t"

definition saver_local :: "saver_state \<Rightarrow> nat" where
  "saver_local x =
     (case x of SWait n \<Rightarrow> n | SWrite n _ \<Rightarrow> n | SPause n \<Rightarrow> n | SFailed n \<Rightarrow> n | SExit n \<Rightarrow> n | SDone \<Rightarrow> 0)"

definition inv_saved :: "pool \<Rightarrow> bool" where
  "inv_saved s \<longleftrightarrow>
     main_total (main s) + sum_list (finalCounts s) + sum_list (map saver_local (savers s)) = totalSavedRows s"

lemma inv_saved_step: "pool_step c s s' \<Longrightarrow> inv_saved s \<Longrightarrow> inv_control s \<Longrightarrow> inv_saved s'"
  by (induction rule: pool_step.induct)
    (auto simp: inv_saved_def inv_control_def others_update saver_local_def sum_list_replicate
      simp del: sum_list_eq_0_iff dest!: others_split [where f = saver_local])

lemma inv_saved: "pool_reachable c d s \<Longrightarrow> inv_saved s"
proof (induction rule: pool_reachable_induct)
  case (start s0)
  then show ?case by (auto simp: pool_start_def inv_saved_def split: if_splits)
qed (auto intro: inv_saved_step inv_control)

section \<open>The rows\<close>

text \<open>What the table holds of a list of rows, when it takes them.\<close>

definition img :: "pool_cfg \<Rightarrow> PacketRow list \<Rightarrow> PacketRow multiset" where
  "img c rows = mset (map (the \<circ> as_stored (cfg_inet c)) rows)"

lemma img_simps [simp]: "img c [] = {#}" "img c (xs @ ys) = img c xs + img c ys"
  by (simp_all add: img_def)

definition saver_rows :: "pool_cfg \<Rightarrow> saver_state \<Rightarrow> PacketRow multiset" where
  "saver_rows c x = (case x of SWrite _ b \<Rightarrow> img c b | _ \<Rightarrow> {#})"

definition reader_rows :: "pool_cfg \<Rightarrow> reader \<Rightarrow> PacketRow multiset" where
  "reader_rows c x = (case x of RGot p \<Rightarrow> img c (concat (file_batches c p)) | RSend _ bs \<Rightarrow> img c (concat bs)
     | RCount _ _ bs \<Rightarrow> img c (concat bs) | _ \<Rightarrow> {#})"

definition failed_saver :: "saver_state \<Rightarrow> nat" where
  "failed_saver x = (case x of SFailed _ \<Rightarrow> 1 | _ \<Rightarrow> 0)"

definition clean :: "pool \<Rightarrow> bool" where
  "clean s \<longleftrightarrow> \<not> cancelled s \<and> sum_list (map failed_saver (savers s)) = 0"

definition path_rows :: "pool_cfg \<Rightarrow> string \<Rightarrow> PacketRow multiset" where
  "path_rows c p = img c (concat (file_batches c p))"

lemma those_the: "those (map f xs) = Some ys \<Longrightarrow> ys = map (the \<circ> f) xs"
  by (induction xs arbitrary: ys) (auto split: option.splits)

lemma written_rows:
  "BulkDatabaseCopy (pg_CopyFrom (cfg_inet c) f) b d = (None, d') \<Longrightarrow>
   mset (packet_logs d') = mset (packet_logs d) + img c b"
  by (auto dest!: pg.bulk_ok those_the simp: img_def)

lemma progress_frame:
  "packet_logs (snd (UpdateJobProgress f u n d)) = packet_logs d \<and>
   source_files (snd (UpdateJobProgress f u n d)) = source_files d"
  by (auto simp: UpdateJobProgress_def run_stmt_def update_progress_stmt_def jobs_rows_def
      split: fault.split sum.split prod.split)

lemma clean_step: "pool_step c s s' \<Longrightarrow> clean s' \<Longrightarrow> inv_control s \<Longrightarrow> clean s"
  by (induction rule: pool_step.induct)
    (auto simp: clean_def inv_control_def others_update failed_saver_def
      simp del: sum_list_eq_0_iff dest!: others_split [where f = failed_saver])

lemma failed_not_clean: "i < length (savers s) \<Longrightarrow> savers s ! i = SFailed n \<Longrightarrow> \<not> clean s"
  by (auto simp: clean_def failed_saver_def simp del: sum_list_eq_0_iff
      dest!: others_split [where f = failed_saver])

lemma fail_not_clean:
  "i < length xs \<Longrightarrow> sum_list (map failed_saver (xs[i := SFailed n])) \<noteq> 0"
  by (simp add: others_update failed_saver_def del: sum_list_eq_0_iff)

definition row_total :: "pool_cfg \<Rightarrow> pool \<Rightarrow> PacketRow multiset" where
  "row_total c s = mset (packet_logs (database s)) + img c (concat (packetStream s))
       + sum_list (map (saver_rows c) (savers s)) + sum_list (map (reader_rows c) (readers s))
       + sum_list (map (path_rows c) (validFiles s))"

lemma row_total_step:
  "pool_step c s s' \<Longrightarrow> clean s \<Longrightarrow> clean s' \<Longrightarrow> inv_control s \<Longrightarrow>
   row_total c s' + sum_list (map (path_rows c) (accepted s)) =
   row_total c s + sum_list (map (path_rows c) (accepted s'))"
  by (induction rule: pool_step.induct)
    (auto simp: row_total_def others_update saver_rows_def reader_rows_def path_rows_def sum_list_replicate
        progress_frame status_frame inv_control_def clean_def failed_saver_def sum_list_replicate_empty
      simp del: sum_list_eq_0_iff
      dest!: others_split [where f = "saver_rows c"] others_split [where f = "reader_rows c"]
        written_rows check_file_frame)

lemma inv_rows:
  "pool_reachable c d s \<Longrightarrow> clean s \<Longrightarrow>
   row_total c s = mset (packet_logs d) + sum_list (map (path_rows c) (accepted s))"
proof (induction rule: pool_reachable_induct)
  case (start s0)
  then show ?case by (auto simp: pool_start_def row_total_def split: if_splits)
next
  case (step s s')
  note ctrl = inv_control [OF step.hyps(1)]
  have "clean s" using clean_step [OF step.hyps(2) step.prems ctrl] .
  then show ?case using row_total_step [OF step.hyps(2) _ step.prems ctrl] step.IH by (simp add: ac_simps)
qed

text \<open>The totals agree with the rows.\<close>

definition saver_holds :: "saver_state \<Rightarrow> nat" where
  "saver_holds x = (case x of SWrite _ b \<Rightarrow> length b | _ \<Rightarrow> 0)"

definition reader_owes :: "reader \<Rightarrow> nat" where
  "reader_owes x = (case x of RCount _ n _ \<Rightarrow> n | _ \<Rightarrow> 0)"

definition inv_stored :: "db \<Rightarrow> pool \<Rightarrow> bool" where
  "inv_stored d s \<longleftrightarrow> (clean s \<longrightarrow> length (packet_logs (database s)) = length (packet_logs d) + totalSavedRows s)"

definition inv_read :: "pool \<Rightarrow> bool" where
  "inv_read s \<longleftrightarrow> (clean s \<longrightarrow>
     totalReadRows s + sum_list (map reader_owes (readers s)) =
     totalSavedRows s + length (concat (packetStream s)) + sum_list (map saver_holds (savers s)))"

lemma written_length:
  "BulkDatabaseCopy (pg_CopyFrom (cfg_inet c) f) b d = (None, d') \<Longrightarrow>
   length (packet_logs d') = length (packet_logs d) + length b"
  by (auto dest!: pg.bulk_ok those_the)

lemma inv_stored_step: "pool_step c s s' \<Longrightarrow> clean s \<Longrightarrow> clean s' \<Longrightarrow> inv_stored d s \<Longrightarrow> inv_stored d s'"
  by (induction rule: pool_step.induct)
    (auto simp: inv_stored_def clean_def progress_frame status_frame others_update failed_saver_def
      simp del: sum_list_eq_0_iff dest!: written_length check_file_frame)

lemma inv_read_step: "pool_step c s s' \<Longrightarrow> clean s \<Longrightarrow> clean s' \<Longrightarrow> inv_control s \<Longrightarrow> inv_read s \<Longrightarrow> inv_read s'"
  by (induction rule: pool_step.induct)
    (auto simp: inv_read_def inv_control_def others_update saver_holds_def reader_owes_def sum_list_replicate
        clean_def failed_saver_def
      simp del: sum_list_eq_0_iff
      dest!: others_split [where f = saver_holds] others_split [where f = reader_owes])

lemma inv_totals: "pool_reachable c d s \<Longrightarrow> inv_stored d s \<and> inv_read s"
proof (induction rule: pool_reachable_induct)
  case (start s0)
  then show ?case by (auto simp: pool_start_def inv_stored_def inv_read_def split: if_splits)
next
  case (step s s')
  note ctrl = inv_control [OF step.hyps(1)]
  show ?case
  proof (cases "clean s'")
    case True
    with clean_step [OF step.hyps(2) _ ctrl] have "clean s" by blast
    then show ?thesis
      using True step ctrl inv_stored_step [OF step.hyps(2)] inv_read_step [OF step.hyps(2)] by blast
  qed (simp add: inv_stored_def inv_read_def)
qed

section \<open>Every run ends\<close>








section \<open>No run gets stuck\<close>



declare list_update_same_conv [simp]






section \<open>The status of the job\<close>

definition job_status :: "db \<Rightarrow> UUID \<Rightarrow> string option" where
  "job_status d u = map_option Status (job_map d u)"

lemma job_status_progress: "job_status (snd (UpdateJobProgress f v n d)) u = job_status d u"
  by (auto simp: job_status_def UpdateJobProgress_def run_stmt_def update_progress_stmt_def job_map_rows
      option.map_comp comp_def split: fault.split sum.split prod.split)

lemma job_status_check: "check_file sha v f p fl d = (isNew, d') \<Longrightarrow> job_status d' u = job_status d u"
  by (auto simp: job_status_def job_map_def dest!: check_file_frame)

lemma job_status_copy:
  "BulkDatabaseCopy (pg_CopyFrom inet f) b d = (res, d') \<Longrightarrow> job_status d' u = job_status d u"
  by (auto simp: job_status_def job_map_def dest!: pg_copy_frame)

lemma job_status_update:
  "reached f \<Longrightarrow> 2 \<le> schema d \<Longrightarrow> job_map d u \<noteq> None \<Longrightarrow>
   job_status (snd (UpdateJobStatus f u st t d)) u = Some st"
  by (auto simp: job_status_def UpdateJobStatus_def run_stmt_def update_status_stmt_def job_map_rows reached_def
      split: fault.splits)

definition finished :: "pool \<Rightarrow> bool" where
  "finished s \<longleftrightarrow> (case main s of MFinal _ \<Rightarrow> True | MReturned _ \<Rightarrow> True | _ \<Rightarrow> False)"

lemma finished_savers:
  assumes "inv_counts c s" "finished s" "i < length (savers s)"
  shows "savers s ! i = SDone"
proof (rule ccontr)
  assume "savers s ! i \<noteq> SDone"
  then have "0 < sum_list (map live_saver (savers s))"
    using assms(3) by (intro sum_list_positive [of i]) (simp_all add: live_saver_def)
  then show False
    using assms(1,2)
    by (auto simp: inv_counts_def finished_def simp del: sum_list_eq_0_iff split: main_state.splits)
qed

lemma finished_step:
  assumes "pool_step c s s'" "inv_counts c s" "finished s"
  shows "finished s' \<and> job_status (database s') u = job_status (database s) u"
  using assms
proof (induction rule: pool_step.induct)
  case (save_report i s n d' f now)
  then show ?case using finished_savers [of c s i] by simp
next
  case (complete s k t d' f now)
  then show ?case by (simp add: finished_def)
qed (auto simp: finished_def job_status_progress dest: job_status_check job_status_copy)

lemma finished_steps:
  assumes "(pool_step c)\<^sup>*\<^sup>* s s'" "pool_reachable c d s" "finished s"
  shows "pool_reachable c d s' \<and> finished s' \<and> job_status (database s') u = job_status (database s) u"
  using assms(1)
proof (induction rule: rtranclp_induct)
  case (step s1 s2)
  then show ?case
    using finished_step [OF step.hyps(2) inv_counts, of d u] pool_reachable_step by metis
qed (use assms in simp)

lemma pool_total:
  assumes "pool_reachable c d s" "main s = MFinal t"
  shows "t = totalSavedRows s"
proof -
  have fin: "finished s" using assms(2) by (simp add: finished_def)
  note counts = inv_counts [OF assms(1)]
  have "sum_list (map saver_local (savers s)) = 0"
    using finished_savers [OF counts fin]
    by (intro sum_list_all_zero) (auto simp: saver_local_def in_set_conv_nth)
  moreover have "finalCounts s = []" using counts assms(2) by (simp add: inv_counts_def)
  ultimately show ?thesis
    using inv_saved [OF assms(1)] assms(2) by (simp add: inv_saved_def del: sum_list_eq_0_iff)
qed

section \<open>Properties\<close>



text \<open>
  The count that the pipeline reports is the count of saved packets: when all counts
  have been collected, \<open>total_packets\<close> is \<open>total_packets_inserted\<close>, even after failures and
  cancellations.
\<close>

theorem pool_total_is_saved:
  assumes "pool_reachable c d s" "main s = MFinal t"
  shows "t = totalSavedRows s"
  by (rule pool_total [OF assms])

text \<open>
  C1: Nothing is lost and nothing is stored twice: when the pipeline completes without having
  been cancelled and no write failed, the table holds exactly its old rows and all rows of every
  file that passed the duplicate check, every path was checked, and the packets read, saved and
  reported are the rows that were added.
\<close>

theorem pool_stores_every_row:
  assumes "pool_reachable c d s" "main s = MFinal t" "\<not> cancelled s"
    and "0 < cfg_readers c" "0 < cfg_savers c" "0 < cfg_preChecks c"
  shows "mset (packet_logs (database s)) = mset (packet_logs d) + sum_list (map (path_rows c) (accepted s)) \<and>
    files s = [] \<and> validFiles s = [] \<and> packetStream s = [] \<and>
    length (packet_logs (database s)) = length (packet_logs d) + t \<and> totalReadRows s = t"
proof -
  have fin: "finished s" "\<not> feeding s" using assms(2) by (simp_all add: finished_def)
  note sizes = inv_sizes [OF assms(1)] and ends = inv_ends [OF assms(1)] and ctrl = inv_control [OF assms(1)]
  have savers: "\<forall>x \<in> set (savers s). x = SDone"
    using finished_savers [OF inv_counts [OF assms(1)] fin(1)] by (auto simp: in_set_conv_nth)
  have "0 < sum_list (map ended_saver (savers s))"
    using savers sizes fin(2) assms(5)
    by (intro sum_list_positive [of 0]) (auto simp: inv_sizes_def ended_saver_def all_set_conv_all_nth)
  then have stream: "stream_closed s" "packetStream s = []" using ends assms(3) by (simp_all add: ends_savers_def)
  have readers: "\<forall>x \<in> set (readers s). x = RDone"
    using ctrl stream(1) by (simp add: inv_control_def all_are_def)
  have "0 < sum_list (map ended_reader (readers s))"
    using readers sizes fin(2) assms(4)
    by (intro sum_list_positive [of 0]) (auto simp: inv_sizes_def ended_reader_def all_set_conv_all_nth)
  then have valid: "valid_closed s" "validFiles s = []" using ends assms(3) by (simp_all add: ends_readers_def)
  have "\<forall>x \<in> set (checkers s). x = CDone" using ctrl valid(1) by (simp add: inv_control_def all_are_def)
  then have "0 < sum_list (map ended_checker (checkers s))"
    using sizes assms(6)
    by (intro sum_list_positive [of 0]) (auto simp: inv_sizes_def ended_checker_def all_set_conv_all_nth)
  then have files: "files s = []" using ends assms(3) by (simp add: ends_checkers_def)
  have clean: "clean s"
    using savers assms(3) by (auto simp: clean_def failed_saver_def)
  have rows: "mset (packet_logs (database s)) = mset (packet_logs d) + sum_list (map (path_rows c) (accepted s))"
  proof -
    have "sum_list (map (saver_rows c) (savers s)) = {#}"
      using savers by (intro sum_list_all_zero) (auto simp: saver_rows_def)
    moreover have "sum_list (map (reader_rows c) (readers s)) = {#}"
      using readers by (intro sum_list_all_zero) (auto simp: reader_rows_def)
    ultimately show ?thesis
      using inv_rows [OF assms(1) clean] stream(2) valid(2) by (simp add: row_total_def)
  qed
  have "totalReadRows s = totalSavedRows s"
  proof -
    have "sum_list (map saver_holds (savers s)) = 0"
      using savers by (intro sum_list_all_zero) (auto simp: saver_holds_def)
    moreover have "sum_list (map reader_owes (readers s)) = 0"
      using readers by (intro sum_list_all_zero) (auto simp: reader_owes_def)
    ultimately show ?thesis
      using inv_totals [OF assms(1)] clean stream(2) by (simp add: inv_read_def del: sum_list_eq_0_iff)
  qed
  moreover have "length (packet_logs (database s)) = length (packet_logs d) + totalSavedRows s"
    using inv_totals [OF assms(1)] clean by (simp add: inv_stored_def)
  ultimately show ?thesis using rows stream valid files pool_total [OF assms(1,2)] by simp
qed

text \<open>
  C26: Every job ends as COMPLETED: whatever happened before, a failed write that recorded
  FAILED or a cancellation included, the step that completes the job writes the status COMPLETED;
  once that statement reached the job's row, no later step of the pipeline changes it.
\<close>

theorem pool_job_ends_completed:
  assumes "pool_reachable c d s" "main s = MCollect k t" "pool_step c s s1" "main s1 = MFinal t"
    and "(pool_step c)\<^sup>*\<^sup>* s1 s2"
  shows "\<exists>f now. database s1 = snd (UpdateJobStatus f (cfg_job c) ''COMPLETED'' (Some now) (database s)) \<and>
    (reached f \<and> 2 \<le> schema (database s) \<and> job_map (database s) (cfg_job c) \<noteq> None \<longrightarrow>
      job_status (database s2) (cfg_job c) = Some ''COMPLETED'')"
proof -
  obtain f now where s1: "database s1 = snd (UpdateJobStatus f (cfg_job c) ''COMPLETED'' (Some now) (database s))"
    using assms(3,2,4) by (cases rule: pool_step.cases) auto
  have "finished s1" using assms(4) by (simp add: finished_def)
  from finished_steps [OF assms(5) pool_reachable_step [OF assms(1,3)] this]
  have "job_status (database s2) (cfg_job c) = job_status (database s1) (cfg_job c)" by simp
  then show ?thesis using job_status_update [of f "database s" "cfg_job c"] s1 by metis
qed

end
