(* ===== verification/PoolRuns.thy ===== *)
theory PoolRuns
  imports PoolProps
begin

text \<open>
  Two runs of the pipeline on one file with one packet, step by step: one in which everything
  works, and one in which the write fails. They are the witnesses of the properties of \<open>PoolProps\<close>.
\<close>

definition sample_records :: "read_result list" where
  "sample_records = [ReadOk \<lparr>Timestamp = 0, CLength = 54\<rparr> sample_tcp_packet]"

definition sample_cfg :: pool_cfg where
  "sample_cfg =
     \<lparr>cfg_job = sample_job, cfg_paths = [''a''], cfg_readers = 1, cfg_savers = 1, cfg_preChecks = 1,
      cfg_bytes = \<lambda>_. Bytes [1], cfg_pcap = \<lambda>_. Records sample_records, cfg_sha = \<lambda>_. ''0'',
      cfg_proto = \<lambda>_. ''TCP'', cfg_inet = sample_inet_in\<rparr>"

lemma sample_cfg_simps [simp]:
  "cfg_job sample_cfg = sample_job" "cfg_paths sample_cfg = [''a'']" "cfg_readers sample_cfg = 1"
  "cfg_savers sample_cfg = 1" "cfg_preChecks sample_cfg = 1" "cfg_bytes sample_cfg p = Bytes [1]"
  "cfg_pcap sample_cfg p = Records sample_records" "cfg_sha sample_cfg = (\<lambda>_. ''0'')"
  "cfg_proto sample_cfg = (\<lambda>_. ''TCP'')" "cfg_inet sample_cfg = sample_inet_in"
  by (simp_all add: sample_cfg_def)

definition sample_read_row :: PacketRow where
  "sample_read_row = the (PacketDecoder (\<lambda>_. ''TCP'') sample_job (sample_tcp_packet\<lparr>ci_Timestamp := 0, ci_Length := 54\<rparr>))"

lemma sample_decoded:
  "PacketDecoder (\<lambda>_. ''TCP'') sample_job (sample_tcp_packet\<lparr>ci_Timestamp := 0, ci_Length := 54\<rparr>) = Some sample_read_row"
  by (simp add: sample_read_row_def PacketDecoder_def decode_network_def to_array_def sample_tcp_packet_def split_beta)

lemma sample_batches: "file_batches sample_cfg p = [[sample_read_row]]"
  by (simp add: file_batches_def sample_records_def sample_decoded chunks_small batchLimit_def)

abbreviation "sample_db \<equiv> one_job_db 6"

definition checked_db :: db where
  "checked_db = sample_db\<lparr>source_files := [\<lparr>sf_job = sample_job, file_path = ''a'', checksum = ''0''\<rparr>]\<rparr>"

lemma sample_db_fields:
  "schema sample_db = 6" "source_files sample_db = []" "packet_logs sample_db = []" "job_exists sample_job sample_db"
  "job_map sample_db sample_job \<noteq> None"
  by (simp_all add: one_job_db_def CreateJob_def run_stmt_def insert_job_stmt_def empty_db_def job_exists_def job_map_def)

lemma sample_check: "check_file (\<lambda>_. ''0'') sample_job NoFault ''a'' (Bytes [1]) sample_db = (True, checked_db)"
  by (simp add: check_file_def run_stmt_def insert_source_stmt_def sample_db_fields checked_db_def)

abbreviation "state ca fs fc vs vc ps sc fin ck rd sv tr ts m d ac \<equiv>
  \<lparr>cancelled = ca, files = fs, files_closed = fc, validFiles = vs, valid_closed = vc, packetStream = ps,
   stream_closed = sc, finalCounts = fin, checkers = ck, readers = rd, savers = sv, totalReadRows = tr,
   totalSavedRows = ts, main = m, database = d, accepted = ac\<rparr>"

lemma reach_step:
  "pool_reachable c d s \<Longrightarrow> pool_step c s t \<Longrightarrow> t = s' \<Longrightarrow> pool_reachable c d s'"
  using pool_reachable_step by blast

definition progressed_db :: db where
  "progressed_db = snd (UpdateJobProgress NoFault sample_job 1 checked_db)"

text \<open>Up to the point where the saver holds the batch.\<close>

lemma run_start:
  "pool_start sample_cfg sample_db =
     Some (state False [] False [] False [] False [] [CWait] [] [] 0 0 (MFeed [''a'']) sample_db [])"
  by (simp add: pool_start_def)

lemma run_writing:
  "pool_reachable sample_cfg sample_db
     (state False [] True [] True [] True [] [CDone] [RDone] [SWrite 0 [sample_read_row]] 1 0
        (MCollect 0 0) progressed_db [''a''])"
proof -
  let ?R = "pool_reachable sample_cfg sample_db" and ?r = sample_read_row
  have "?R (state False [] False [] False [] False [] [CWait] [] [] 0 0 (MFeed [''a'']) sample_db [])"
    using run_start by (auto simp: pool_reachable_def)
  then have "?R (state False [''a''] False [] False [] False [] [CWait] [] [] 0 0 (MFeed []) sample_db [])"
    by (rule reach_step [OF _ pool_step.feed], (simp)+)
  then have "?R (state False [''a''] True [] False [] False [] [CWait] [RWait] [SWait 0] 0 0 (MCollect 0 0) sample_db [])"
    by (rule reach_step [OF _ pool_step.spawn], (simp)+)
  then have "?R (state False [] True [] False [] False [] [CHave ''a''] [RWait] [SWait 0] 0 0 (MCollect 0 0) sample_db [])"
    by (rule reach_step [OF _ pool_step.check_take [where i = 0]], (simp)+)
  then have "?R (state False [] True [] False [] False [] [CPut ''a''] [RWait] [SWait 0] 0 0 (MCollect 0 0) checked_db [])"
    by (rule reach_step [OF _ pool_step.check_insert [where i = 0 and f = NoFault and isNew = True]], (simp add: sample_check)+)
  then have "?R (state False [] True [''a''] False [] False [] [CWait] [RWait] [SWait 0] 0 0 (MCollect 0 0) checked_db [''a''])"
    by (rule reach_step [OF _ pool_step.check_put [where i = 0]], (simp)+)
  then have "?R (state False [] True [''a''] False [] False [] [CDone] [RWait] [SWait 0] 0 0 (MCollect 0 0) checked_db [''a''])"
    by (rule reach_step [OF _ pool_step.check_end [where i = 0]], (simp)+)
  then have "?R (state False [] True [''a''] True [] False [] [CDone] [RWait] [SWait 0] 0 0 (MCollect 0 0) checked_db [''a''])"
    by (rule reach_step [OF _ pool_step.close_valid], (simp)+)
  then have "?R (state False [] True [] True [] False [] [CDone] [RGot ''a''] [SWait 0] 0 0 (MCollect 0 0) checked_db [''a''])"
    by (rule reach_step [OF _ pool_step.read_take [where i = 0]], (simp)+)
  then have "?R (state False [] True [] True [] False [] [CDone] [RSend ''a'' [[?r]]] [SWait 0] 0 0 (MCollect 0 0) checked_db [''a''])"
    by (rule reach_step [OF _ pool_step.read_open [where i = 0]], (simp add: sample_batches)+)
  then have "?R (state False [] True [] True [[?r]] False [] [CDone] [RCount ''a'' 1 []] [SWait 0] 0 0 (MCollect 0 0) checked_db [''a''])"
    by (rule reach_step [OF _ pool_step.read_send [where i = 0]], (simp add: stream_capacity_def)+)
  then have "?R (state False [] True [] True [[?r]] False [] [CDone] [RSend ''a'' []] [SWait 0] 1 0 (MCollect 0 0) checked_db [''a''])"
    by (rule reach_step [OF _ pool_step.read_count [where i = 0]], (simp)+)
  then have "?R (state False [] True [] True [[?r]] False [] [CDone] [RWait] [SWait 0] 1 0 (MCollect 0 0) progressed_db [''a''])"
    by (rule reach_step [OF _ pool_step.read_done [where i = 0 and f = NoFault]], (simp add: file_opens_def progressed_db_def)+)
  then have "?R (state False [] True [] True [[?r]] False [] [CDone] [RDone] [SWait 0] 1 0 (MCollect 0 0) progressed_db [''a''])"
    by (rule reach_step [OF _ pool_step.read_end [where i = 0]], (simp)+)
  then have "?R (state False [] True [] True [[?r]] True [] [CDone] [RDone] [SWait 0] 1 0 (MCollect 0 0) progressed_db [''a''])"
    by (rule reach_step [OF _ pool_step.close_stream], (simp)+)
  then show ?thesis
    by (rule reach_step [OF _ pool_step.save_take [where i = 0]], (simp)+)
qed

lemma sample_row_stored: "as_stored sample_inet_in sample_read_row \<noteq> None"
proof -
  have "Protocol sample_read_row = ''TCP''" "SrcIP sample_read_row = Addr4 [10, 5, 7, 113]"
    "DstIP sample_read_row = Addr4 [54, 90, 39, 78]"
    by (simp_all add: sample_read_row_def PacketDecoder_def decode_network_def to_array_def
        sample_tcp_packet_def split_beta)
  then show ?thesis
    by (simp add: as_stored_def sample_inet_in_def dotted_def digits.simps digit_char_def)
qed

definition stored_db :: db where
  "stored_db = progressed_db\<lparr>packet_logs := [the (as_stored sample_inet_in sample_read_row)]\<rparr>"

lemma progressed_fields: "schema progressed_db = 6" "packet_logs progressed_db = []"
  "job_map progressed_db sample_job \<noteq> None"
proof -
  show "packet_logs progressed_db = []"
    by (simp add: progressed_db_def progress_frame checked_db_def sample_db_fields)
  have d: "progressed_db = jobs_rows sample_job (\<lambda>j. j\<lparr>FilesDone := FilesDone j + 1\<rparr>) checked_db"
    by (simp add: progressed_db_def UpdateJobProgress_def run_stmt_def update_progress_stmt_def checked_db_def
        one_job_db_def CreateJob_def insert_job_stmt_def empty_db_def job_exists_def)
  show "schema progressed_db = 6" by (simp add: d jobs_rows_def checked_db_def sample_db_fields)
  have "job_map checked_db = job_map sample_db" by (rule ext) (simp add: checked_db_def job_map_def)
  then show "job_map progressed_db sample_job \<noteq> None" using sample_db_fields(5) by (simp add: d job_map_rows)
qed

lemma sample_write:
  "BulkDatabaseCopy (pg_CopyFrom sample_inet_in NoFault) [sample_read_row] progressed_db = (None, stored_db)"
proof -
  obtain r where r: "as_stored sample_inet_in sample_read_row = Some r" using sample_row_stored by blast
  have "copy_stmt sample_inet_in [''packet_logs''] copy_columns (map input_row [sample_read_row])
      progressed_db = Inr (1, stored_db)"
    unfolding copy_stmt_input by (simp add: r progressed_fields stored_db_def)
  then show ?thesis by (simp add: BulkDatabaseCopy_def pg_CopyFrom_def run_stmt_def)
qed

lemma sample_write_fails:
  "BulkDatabaseCopy (pg_CopyFrom sample_inet_in (FailBefore e)) [sample_read_row] progressed_db =
     (Some (ConnError e), progressed_db)"
  by (simp add: BulkDatabaseCopy_def pg_CopyFrom_def run_stmt_def)

text \<open>The run that works.\<close>

lemma run_collected:
  "pool_reachable sample_cfg sample_db
     (state False [] True [] True [] True [] [CDone] [RDone] [SDone] 1 1 (MCollect 1 1) stored_db [''a''])"
proof -
  let ?R = "pool_reachable sample_cfg sample_db"
  have "?R (state False [] True [] True [] True [] [CDone] [RDone] [SPause 1] 1 1 (MCollect 0 0) stored_db [''a''])"
    by (rule reach_step [OF run_writing pool_step.save_ok [where i = 0 and f = NoFault and d' = stored_db]], (simp add: sample_write)+)
  then have "?R (state False [] True [] True [] True [] [CDone] [RDone] [SWait 1] 1 1 (MCollect 0 0) stored_db [''a''])"
    by (rule reach_step [OF _ pool_step.save_again [where i = 0]], (simp)+)
  then have "?R (state False [] True [] True [] True [] [CDone] [RDone] [SExit 1] 1 1 (MCollect 0 0) stored_db [''a''])"
    by (rule reach_step [OF _ pool_step.save_end [where i = 0]], (simp)+)
  then have "?R (state False [] True [] True [] True [1] [CDone] [RDone] [SDone] 1 1 (MCollect 0 0) stored_db [''a''])"
    by (rule reach_step [OF _ pool_step.save_result [where i = 0]], (simp)+)
  then show ?thesis by (rule reach_step [OF _ pool_step.collect], (simp)+)
qed

definition completed :: "db \<Rightarrow> db" where
  "completed d = snd (UpdateJobStatus NoFault sample_job ''COMPLETED'' (Some 0) d)"

lemma run_completed:
  "pool_reachable sample_cfg sample_db
     (state False [] True [] True [] True [] [CDone] [RDone] [SDone] 1 1 (MFinal 1) (completed stored_db) [''a''])"
  by (rule reach_step [OF run_collected pool_step.complete [where f = NoFault and now = 0]], (simp add: completed_def)+)

text \<open>The run in which the write fails: FAILED is recorded, then overwritten.\<close>

definition failed_db :: db where
  "failed_db = report_failed sample_job NoFault 0 progressed_db"

lemma failed_fields: "2 \<le> schema failed_db" "job_map failed_db sample_job \<noteq> None" "packet_logs failed_db = []"
  "job_status failed_db sample_job = Some ''FAILED''"
proof -
  show "2 \<le> schema failed_db" "packet_logs failed_db = []"
    by (simp_all add: failed_db_def report_failed_def status_frame progressed_fields)
  show "job_status failed_db sample_job = Some ''FAILED''"
    by (simp add: failed_db_def report_failed_def job_status_update reached_def progressed_fields)
  then show "job_map failed_db sample_job \<noteq> None" by (auto simp: job_status_def)
qed

lemma run_failed:
  "pool_reachable sample_cfg sample_db
     (state True [] True [] True [] True [] [CDone] [RDone] [SDone] 1 0 (MCollect 1 0) failed_db [''a''])"
proof -
  let ?R = "pool_reachable sample_cfg sample_db"
  have "?R (state False [] True [] True [] True [] [CDone] [RDone] [SFailed 0] 1 0 (MCollect 0 0) progressed_db [''a''])"
    by (rule reach_step [OF run_writing pool_step.save_fail [where i = 0 and f = "FailBefore ''reset''" and e = "ConnError ''reset''"]], (simp add: sample_write_fails)+)
  then have "?R (state True [] True [] True [] True [] [CDone] [RDone] [SExit 0] 1 0 (MCollect 0 0) failed_db [''a''])"
    by (rule reach_step [OF _ pool_step.save_report [where i = 0 and f = NoFault and now = 0]], (simp add: failed_db_def)+)
  then have "?R (state True [] True [] True [] True [0] [CDone] [RDone] [SDone] 1 0 (MCollect 0 0) failed_db [''a''])"
    by (rule reach_step [OF _ pool_step.save_result [where i = 0]], (simp)+)
  then show ?thesis by (rule reach_step [OF _ pool_step.collect], (simp)+)
qed

section \<open>Witnesses\<close>



lemma pool_total_is_saved_witness: "(1 :: nat) = 1 \<and> pool_reachable sample_cfg sample_db
     (state False [] True [] True [] True [] [CDone] [RDone] [SDone] 1 1 (MFinal 1) (completed stored_db) [''a''])"
  using pool_total_is_saved [OF run_completed] run_completed by simp

lemma pool_stores_every_row_witness:
  "mset (packet_logs (completed stored_db)) = path_rows sample_cfg ''a'' \<and> length (packet_logs (completed stored_db)) = 1"
  using pool_stores_every_row [OF run_completed] by (simp add: sample_db_fields)

text \<open>The run that recorded FAILED and stored nothing ends as COMPLETED.\<close>

lemma pool_job_ends_completed_witness:
  "\<exists>s s1. pool_reachable sample_cfg sample_db s \<and> job_status (database s) sample_job = Some ''FAILED'' \<and>
     pool_step sample_cfg s s1 \<and> packet_logs (database s1) = [] \<and>
     job_status (database s1) sample_job = Some ''COMPLETED''"
proof -
  let ?s = "state True [] True [] True [] True [] [CDone] [RDone] [SDone] 1 0 (MCollect 1 0) failed_db [''a'']"
  let ?s1 = "?s\<lparr>main := MFinal 0, database := completed failed_db\<rparr>"
  have step: "pool_step sample_cfg ?s ?s1"
    by (rule pool_step.complete [where f = NoFault and now = 0 and k = 1]) (simp_all add: completed_def)
  obtain f now where f: "completed failed_db = snd (UpdateJobStatus f sample_job ''COMPLETED'' (Some now) failed_db)"
    "reached f \<longrightarrow> job_status (completed failed_db) sample_job = Some ''COMPLETED''"
    using pool_job_ends_completed [OF run_failed _ step, of 1 0 ?s1] failed_fields by auto
  have "job_status (completed failed_db) sample_job = Some ''COMPLETED''"
    using failed_fields by (simp add: completed_def job_status_update reached_def)
  then show ?thesis
    using run_failed step failed_fields(3,4)
    by (intro exI [of _ ?s] exI [of _ ?s1]) (simp add: completed_def status_frame)
qed

end
