(* ===== verification/GoPath.thy ===== *)
theory GoPath
  imports GoStrings
begin

text \<open>
  \<open>path/filepath\<close> on Unix as the programs use it: \<open>Clean\<close>, \<open>Join\<close> and \<open>Dir\<close>, on the
  components between slashes.
\<close>

text \<open>One component against the components kept so far, the last one first.\<close>

definition clean_step :: "bool \<Rightarrow> string \<Rightarrow> string list \<Rightarrow> string list" where
  "clean_step rooted c stack =
     (if c = '''' \<or> c = ''.'' then stack
      else if c = ''..'' then
        (case stack of
           [] \<Rightarrow> (if rooted then [] else [c])
         | d # ds \<Rightarrow> (if d = ''..'' then c # stack else ds))
      else c # stack)"

definition Clean :: "string \<Rightarrow> string" where
  "Clean path =
     (let rooted = (path \<noteq> '''' \<and> hd path = CHR ''/'');
          comps = rev (fold (clean_step rooted) (Split (CHR ''/'') path) []);
          s = Join ''/'' comps
      in if rooted then CHR ''/'' # s else if comps = [] then ''.'' else s)"

definition filepath_Join :: "string list \<Rightarrow> string" where
  "filepath_Join elems =
     (let es = dropWhile (\<lambda>e. e = '''') elems
      in if es = [] then '''' else Clean (Join ''/'' es))"

definition filepath_Dir :: "string \<Rightarrow> string" where
  "filepath_Dir path = Clean (rev (dropWhile (\<lambda>c. c \<noteq> CHR ''/'') (rev path)))"

section \<open>Cleaning\<close>

text \<open>A name: a component that cleaning keeps.\<close>

definition is_name :: "string \<Rightarrow> bool" where
  "is_name c \<longleftrightarrow> c \<noteq> '''' \<and> c \<noteq> ''.'' \<and> c \<noteq> ''..'' \<and> CHR ''/'' \<notin> set c"

lemma fold_clean_names:
  "\<forall>c \<in> set cs. is_name c \<Longrightarrow> fold (clean_step r) cs st = rev cs @ st"
  by (induction cs arbitrary: st) (auto simp: clean_step_def is_name_def)

lemma Split_Join_names:
  "cs \<noteq> [] \<Longrightarrow> \<forall>c \<in> set cs. is_name c \<Longrightarrow> Split (CHR ''/'') (Join ''/'' cs) = cs"
  by (intro Split_Join) (auto simp: is_name_def)

lemma Clean_abs:
  assumes "cs \<noteq> []" "\<forall>c \<in> set cs. is_name c"
  shows "Clean (CHR ''/'' # Join ''/'' cs) = CHR ''/'' # Join ''/'' cs"
proof -
  have "Split (CHR ''/'') (CHR ''/'' # Join ''/'' cs) = '''' # cs"
    using Split_append_sep [of "CHR ''/''" "''''" "Join ''/'' cs"] Split_Join_names [OF assms] by simp
  then show ?thesis
    using fold_clean_names [OF assms(2), of True "[]"] by (simp add: Clean_def clean_step_def)
qed

lemma Join_snoc: "cs \<noteq> [] \<Longrightarrow> Join sep (cs @ [c]) = Join sep cs @ sep @ c"
  by (induction sep cs rule: Join.induct) simp_all

lemma Dir_abs:
  assumes "cs \<noteq> []" "\<forall>c \<in> set cs. is_name c" "is_name c"
  shows "filepath_Dir (CHR ''/'' # Join ''/'' (cs @ [c])) = CHR ''/'' # Join ''/'' cs"
proof -
  let ?p = "CHR ''/'' # Join ''/'' cs"
  have "rev (dropWhile (\<lambda>x. x \<noteq> CHR ''/'') (rev (?p @ ''/'' @ c))) = ?p @ ''/''"
    using assms(3) by (simp add: is_name_def dropWhile_append)
  moreover have "Clean (?p @ ''/'') = ?p"
  proof -
    have "Split (CHR ''/'') (Join ''/'' cs @ ''/'') = cs @ ['''']"
      using Split_Join [of "cs @ ['''']" "CHR ''/''"] assms(1,2) by (simp add: Join_snoc is_name_def)
    then have "Split (CHR ''/'') (?p @ ''/'') = '''' # cs @ ['''']"
      using Split_append_sep [of "CHR ''/''" "''''" "Join ''/'' cs @ ''/''"] by simp
    then show ?thesis
      using fold_clean_names [OF assms(2), of True "[]"] by (simp add: Clean_def clean_step_def)
  qed
  ultimately show ?thesis using assms(1) by (simp add: filepath_Dir_def Join_snoc)
qed

end
