(* ===== verification/JobsApi.thy ===== *)
theory JobsApi
  imports JobStore Http GoPath GoTime
begin

text \<open>
  The job handlers of \<open>go-sniffer/internal/api/jobs.go\<close>, the health check and the routes of
  \<open>router.go\<close>. The server's state is the database, the map of cancel functions keyed by the text
  of a job's identifier, the contexts that were cancelled and the pipelines that were launched.
\<close>

section \<open>State and bodies\<close>

record Server =
  Store :: db
  Jobs :: "string \<rightharpoonup> UUID" \<comment> \<open>the job whose context the stored function cancels\<close>
  ctx_cancelled :: "UUID list"
  launched :: "(UUID \<times> string list) list"
  DefaultSourceDir :: string

record JobResponse =
  rJobID :: string
  rStatus :: string
  ProgressPct :: int
  rStartedAt :: nanos
  rCompletedAt :: "nanos option"
  rSourceDir :: string
  rTotalFiles :: int
  FilesRead :: int

datatype jobs_body =
    ErrGettingJobs | InvalidJobId | JobNotFound | InternalError | InvalidPattern string
  | NoPcapFiles string | CreateFailed db_error | UUIDError string
  | JobList "JobResponse list" | JobJson JobResponse | HealthOk

definition jobRowToResponse :: "(UUID \<Rightarrow> string) \<Rightarrow> JobRow \<Rightarrow> JobResponse" where
  "jobRowToResponse uuid_String row =
     (let pct = (if TotalFiles row > 0 then go_div (go_int (FilesDone row * 100)) (TotalFiles row) else 0)
      in \<lparr>rJobID = uuid_String (JobID row), rStatus = Status row, ProgressPct = pct,
          rStartedAt = StartedAt row, rCompletedAt = CompletedAt row, rSourceDir = SourceDir row,
          rTotalFiles = TotalFiles row, FilesRead = FilesDone row\<rparr>)"

text \<open>
  \<open>json.NewEncoder(w).Encode\<close> writes nothing when a time's year is outside 0 to 9999; the status
  is then the implicit 200, if none was set.
\<close>

definition response_ok :: "JobResponse \<Rightarrow> bool" where
  "response_ok r \<longleftrightarrow> year_ok (rStartedAt r) \<and> (case rCompletedAt r of None \<Rightarrow> True | Some t \<Rightarrow> year_ok t)"

definition Encode :: "bool \<Rightarrow> 'b \<Rightarrow> 'b ResponseWriter \<Rightarrow> 'b ResponseWriter" where
  "Encode ok b w = (if ok then WriteBody b w else WriteHeader 200 w)"

section \<open>The handlers\<close>

definition HandleListJobs ::
  "(UUID \<Rightarrow> string) \<Rightarrow> job_error + JobRow list \<Rightarrow> jobs_body ResponseWriter"
where
  "HandleListJobs uuid_String getAllJobs =
     (let w = new_writer in
      case getAllJobs of
        Inl e \<Rightarrow> http_Error ErrGettingJobs 500 w
      | Inr rows \<Rightarrow>
          (let response = map (jobRowToResponse uuid_String) rows
           in Encode (list_all response_ok response) (JobList response)
                (SetContentType ''application/json'' w)))"

definition HandleGetJob ::
  "(UUID \<Rightarrow> string) \<Rightarrow> job_error + JobRow \<Rightarrow> jobs_body ResponseWriter"
where
  "HandleGetJob uuid_String getJob =
     (let w = new_writer in
      case getJob of
        Inl (ErrInvalidUUID _) \<Rightarrow> http_Error InvalidJobId 400 w
      | Inl ErrJobNotFound \<Rightarrow> http_Error JobNotFound 404 w
      | Inl _ \<Rightarrow> http_Error InternalError 500 w
      | Inr row \<Rightarrow>
          (let r = jobRowToResponse uuid_String row
           in Encode (response_ok r) (JobJson r) (SetContentType ''application/json'' w)))"

text \<open>
  Creating a job. \<open>glob\<close> is \<open>GlobFn\<close>; \<open>fresh\<close>, \<open>t1\<close>, \<open>t2\<close> and \<open>f\<close> are the identifier the database
  picks, the two clock readings and what happens to the insert. The goroutine that runs the
  pipeline is recorded in \<open>launched\<close>; its last act is \<open>job_finished\<close>.
\<close>

definition HandleCreateJob ::
  "(UUID \<Rightarrow> string) \<Rightarrow> (string \<Rightarrow> string + string list) \<Rightarrow> UUID \<Rightarrow> nanos \<Rightarrow> nanos \<Rightarrow> fault \<Rightarrow> string \<Rightarrow>
   Server \<Rightarrow> jobs_body ResponseWriter \<times> Server"
where
  "HandleCreateJob uuid_String glob fresh t1 t2 f source_dir s =
     (let w = new_writer;
          pcapDir = (if source_dir = '''' then DefaultSourceDir s else source_dir)
      in case glob (filepath_Join [pcapDir, ''*.pcap'']) of
           Inl e \<Rightarrow> (http_Error (InvalidPattern e) 400 w, s)
         | Inr filePaths \<Rightarrow>
             (if length filePaths = 0 then (http_Error (NoPcapFiles pcapDir) 400 w, s)
              else
                (case CreateJob fresh t1 f pcapDir (int (length filePaths)) (Store s) of
                   (Inl e, d) \<Rightarrow> (http_Error (CreateFailed e) 500 w, s\<lparr>Store := d\<rparr>)
                 | (Inr jobID, d) \<Rightarrow>
                     (let s1 = s\<lparr>Store := d, Jobs := (Jobs s)(uuid_String jobID \<mapsto> jobID),
                                launched := launched s @ [(jobID, filePaths)]\<rparr>;
                          row = \<lparr>JobID = jobID, Status = ''PROCESSING'', StartedAt = t2, CompletedAt = None,
                                 SourceDir = pcapDir, TotalFiles = int (length filePaths), FilesDone = 0\<rparr>;
                          r = jobRowToResponse uuid_String row
                      in (Encode (response_ok r) (JobJson r)
                            (WriteHeader 202 (SetContentType ''application/json'' w)), s1)))))"

definition job_finished :: "(UUID \<Rightarrow> string) \<Rightarrow> UUID \<Rightarrow> Server \<Rightarrow> Server" where
  "job_finished uuid_String jobID s = s\<lparr>Jobs := (Jobs s)(uuid_String jobID := None)\<rparr>"

text \<open>
  Deleting a job: after the first error the handler goes on, since the branch has no return.
\<close>

definition HandleDeleteJob ::
  "(string \<Rightarrow> string + UUID) \<Rightarrow> fault \<Rightarrow> string \<Rightarrow> Server \<Rightarrow> jobs_body ResponseWriter \<times> Server"
where
  "HandleDeleteJob uuid_Scan f jobIDStr s =
     (let w = new_writer;
          w1 = (case uuid_Scan jobIDStr of Inl e \<Rightarrow> http_Error (UUIDError e) 502 w | Inr _ \<Rightarrow> w);
          s1 = (case Jobs s jobIDStr of
                  Some u \<Rightarrow> s\<lparr>ctx_cancelled := ctx_cancelled s @ [u], Jobs := (Jobs s)(jobIDStr := None)\<rparr>
                | None \<Rightarrow> s)
      in case DeleteJob uuid_Scan f jobIDStr (Store s1) of
           (Some (ErrInvalidUUID _), d) \<Rightarrow> (http_Error InvalidJobId 400 w1, s1\<lparr>Store := d\<rparr>)
         | (Some _, d) \<Rightarrow> (http_Error InternalError 500 w1, s1\<lparr>Store := d\<rparr>)
         | (None, d) \<Rightarrow> (WriteHeader 204 w1, s1\<lparr>Store := d\<rparr>))"

definition HandleHealth :: "jobs_body ResponseWriter" where
  "HandleHealth = WriteBody HealthOk (WriteHeader 200 (SetContentType ''application/json'' new_writer))"

section \<open>The routes\<close>

datatype handler = ListPackets | ListJobs | CreateJobH | GetJobH | DeleteJobH | Health

text \<open>
  The routes that \<open>Router\<close> registers: method, pattern, handler, and whether the route is in the
  group with the limiter \<open>NewRateLimit(10.0, 10.0)\<close>. The matching of a request is the router
  library's.
\<close>

definition Router :: "(string \<times> string \<times> handler \<times> bool) list" where
  "Router =
     [(''GET'', ''/api/v1/packets/'', ListPackets, False),
      (''GET'', ''/api/v1/jobs/'', ListJobs, True),
      (''POST'', ''/api/v1/jobs/'', CreateJobH, True),
      (''GET'', ''/api/v1/jobs/{job_id}'', GetJobH, True),
      (''DELETE'', ''/api/v1/jobs/{job_id}'', DeleteJobH, True),
      (''GET'', ''/api/v1/health'', Health, False)]"

section \<open>Facts about the handlers\<close>

lemma Encode_status [simp]:
  "wstatus (Encode ok b w) = (case wstatus w of None \<Rightarrow> Some 200 | c \<Rightarrow> c)"
  by (simp add: Encode_def WriteBody_def Let_def split: option.split)

lemma SetContentType_status [simp]: "wstatus (SetContentType t w) = wstatus w"
  by (simp add: SetContentType_def)

lemma new_writer_status [simp]: "wstatus new_writer = None"
  by (simp add: new_writer_def)

lemma delete_no_column:
  "6 \<le> schema d \<Longrightarrow> uuid_Scan str = Inr u \<Longrightarrow>
   \<exists>e. DeleteJob uuid_Scan f str d = (Some (ErrDatabase e), d)"
  by (auto simp: DeleteJob_def run_stmt_def delete_job_stmt_def packet_source_column_def split: fault.split)

text \<open>The keys of the running jobs are the canonical texts of their identifiers.\<close>

definition jobs_canonical :: "(UUID \<Rightarrow> string) \<Rightarrow> Server \<Rightarrow> bool" where
  "jobs_canonical uuid_String s \<longleftrightarrow> (\<forall>k u. Jobs s k = Some u \<longrightarrow> k = uuid_String u)"

lemma create_canonical:
  "jobs_canonical uS s \<Longrightarrow> jobs_canonical uS (snd (HandleCreateJob uS glob fresh t1 t2 f dir s))"
  by (auto simp: jobs_canonical_def HandleCreateJob_def Let_def split: sum.split prod.split)

lemma finished_canonical: "jobs_canonical uS s \<Longrightarrow> jobs_canonical uS (job_finished uS u s)"
  by (auto simp: jobs_canonical_def job_finished_def)

lemma delete_Jobs:
  "Jobs (snd (HandleDeleteJob uuid_Scan f str s)) = (Jobs s)(str := None) \<and>
   ctx_cancelled (snd (HandleDeleteJob uuid_Scan f str s)) =
     ctx_cancelled s @ (case Jobs s str of None \<Rightarrow> [] | Some u \<Rightarrow> [u])"
  by (auto simp: HandleDeleteJob_def Let_def fun_upd_idem
      split: option.split sum.split prod.split job_error.split)

text \<open>The progress shown to a client: no product overflows, and the division rounds down.\<close>

lemma progress_pct:
  assumes "0 \<le> FilesDone row" "FilesDone row \<le> TotalFiles row" "int4_range (TotalFiles row)"
  shows "ProgressPct (jobRowToResponse uS row) = FilesDone row * 100 div TotalFiles row"
proof -
  have "go_int (FilesDone row * 100) = FilesDone row * 100" using assms by (intro go_int_id) auto
  then show ?thesis
    using assms by (cases "TotalFiles row = 0") (simp_all add: jobRowToResponse_def go_div_nonneg)
qed

lemma create_job_accepted:
  assumes "HandleCreateJob uS glob fresh t1 t2 f dir s = (w, s')" "wstatus w = Some 202" "Valid fresh"
  shows "\<exists>paths. launched s' = launched s @ [(fresh, paths)] \<and>
    map_option (\<lambda>r. (TotalFiles r, FilesDone r)) (job_map (Store s') fresh) = Some (int (length paths), 0) \<and>
    int4_range (int (length paths)) \<and> 2 \<le> schema (Store s') \<and>
    source_files (Store s') = source_files (Store s) \<and> paths \<noteq> []"
proof -
  let ?dir = "if dir = '''' then DefaultSourceDir s else dir"
  obtain paths where g: "glob (filepath_Join [?dir, ''*.pcap'']) = Inr paths" "paths \<noteq> []"
    using assms(1,2) by (auto simp: HandleCreateJob_def Let_def split: sum.splits if_splits)
  obtain r d' where c: "CreateJob fresh t1 f ?dir (int (length paths)) (Store s) = (r, d')" by fastforce
  obtain u where u: "r = Inr u" using assms(1,2) g c by (cases r) (auto simp: HandleCreateJob_def Let_def)
  have ins: "insert_job_stmt fresh ''PROCESSING'' t1 ?dir (int (length paths)) 0 (Store s) = Inr (u, d')"
    using c u by (simp add: CreateJob_def run_stmt_Inr)
  note row = job_map_insert [OF ins assms(3)]
  have "int4_range (int (length paths))" "2 \<le> schema d'" "source_files d' = source_files (Store s)"
    using ins by (auto simp: insert_job_stmt_def split: if_splits)
  then show ?thesis using assms(1) g c u row(1,3) by (auto simp: HandleCreateJob_def Let_def)
qed

section \<open>Properties\<close>


text \<open>
  C31: The answers of the deletion: on every schema in which packets can be written a request
  with a well-formed identifier is answered 500 and deletes nothing, and one with a malformed
  identifier is answered 502, not 400, with both error texts in its body.
\<close>

theorem delete_job_answers:
  assumes "6 \<le> schema (Store s)"
  shows "case HandleDeleteJob uuid_Scan f str s of (w, s') \<Rightarrow>
    Store s' = Store s \<and>
    (\<forall>u. uuid_Scan str = Inr u \<longrightarrow> wstatus w = Some 500 \<and> wbody w = [InternalError]) \<and>
    (\<forall>e. uuid_Scan str = Inl e \<longrightarrow> wstatus w = Some 502 \<and> wbody w = [UUIDError e, InvalidJobId])"
proof (cases "uuid_Scan str")
  case (Inl e)
  then show ?thesis
    by (simp add: HandleDeleteJob_def DeleteJob_def Let_def http_defs split: option.split)
next
  case (Inr u)
  define s1 where "s1 = (case Jobs s str of
      Some u \<Rightarrow> s\<lparr>ctx_cancelled := ctx_cancelled s @ [u], Jobs := (Jobs s)(str := None)\<rparr> | None \<Rightarrow> s)"
  have "Store s1 = Store s" by (simp add: s1_def split: option.split)
  moreover obtain e where "DeleteJob uuid_Scan f str (Store s) = (Some (ErrDatabase e), Store s)"
    using delete_no_column [of "Store s" uuid_Scan str u f] assms Inr by blast
  ultimately show ?thesis
    by (simp add: HandleDeleteJob_def s1_def [symmetric] Let_def Inr http_defs)
qed

text \<open>
  C32: Only the canonical text of the identifier stops a running job: after any requests that
  started, finished or deleted jobs, a deletion whose text denotes the job but is not its
  canonical text (capital letters, braces) cancels nothing, while the canonical text of a running
  job cancels exactly that job.
\<close>

theorem delete_cancels_canonical_text:
  assumes "jobs_canonical uS s"
  shows "(\<forall>u. str = uS u \<and> Jobs s str = Some u \<longrightarrow>
       ctx_cancelled (snd (HandleDeleteJob uuid_Scan f str s)) = ctx_cancelled s @ [u] \<and>
       Jobs (snd (HandleDeleteJob uuid_Scan f str s)) str = None) \<and>
    ((\<forall>u. str \<noteq> uS u) \<longrightarrow>
       ctx_cancelled (snd (HandleDeleteJob uuid_Scan f str s)) = ctx_cancelled s \<and>
       Jobs (snd (HandleDeleteJob uuid_Scan f str s)) = Jobs s) \<and>
    jobs_canonical uS (snd (HandleDeleteJob uuid_Scan f str s)) \<and>
    jobs_canonical uS (snd (HandleCreateJob uS glob fresh t1 t2 f' dir s)) \<and>
    jobs_canonical uS (job_finished uS v s)"
  using assms create_canonical [OF assms] finished_canonical [OF assms]
    delete_Jobs [where uuid_Scan = uuid_Scan and f = f and str = str and s = s]
  by (auto simp: jobs_canonical_def fun_upd_idem split: option.splits)

text \<open>
  Looking a job up over HTTP: 400 for a malformed identifier, 404 for an unknown job, 500
  for a failing database and otherwise 200 with the job's row.
\<close>

theorem get_job_answers:
  assumes "2 \<le> schema d"
  shows "wstatus (HandleGetJob uS (GetJob uuid_Scan f str d)) =
    Some (case uuid_Scan str of
       Inl _ \<Rightarrow> 400
     | Inr u \<Rightarrow> (if f \<noteq> NoFault then 500 else if job_map d u = None then 404 else 200))"
  using assms
  by (auto simp: HandleGetJob_def GetJob_def run_stmt_def select_job_stmt_def job_map_def Let_def
      split: sum.split option.split fault.split)

section \<open>Witnesses\<close>

definition sample_server :: Server where
  "sample_server = \<lparr>Store = one_job_db 6, Jobs = [''job'' \<mapsto> sample_job], ctx_cancelled = [], launched = [],
     DefaultSourceDir = ''/data''\<rparr>"

lemma sample_server_simps [simp]:
  "Store sample_server = one_job_db 6" "Jobs sample_server = [''job'' \<mapsto> sample_job]"
  "ctx_cancelled sample_server = []"
  by (simp_all add: sample_server_def)

lemma one_job_schema [simp]: "schema (one_job_db 6) = 6"
  by (simp add: one_job_db_def CreateJob_def run_stmt_def insert_job_stmt_def empty_db_def job_exists_def)


lemma delete_job_answers_witness:
  "wstatus (fst (HandleDeleteJob sample_scan NoFault ''job'' sample_server)) = Some 500 \<and>
   wstatus (fst (HandleDeleteJob sample_scan NoFault ''x'' sample_server)) = Some 502"
  using delete_job_answers [where s = sample_server and uuid_Scan = sample_scan and f = NoFault and str = "''job''"]
    delete_job_answers [where s = sample_server and uuid_Scan = sample_scan and f = NoFault and str = "''x''"]
  by (auto simp: sample_scan_def split: prod.splits)

lemma delete_cancels_canonical_text_witness:
  "ctx_cancelled (snd (HandleDeleteJob sample_scan NoFault ''JOB'' sample_server)) = [] \<and>
   ctx_cancelled (snd (HandleDeleteJob sample_scan NoFault ''job'' sample_server)) = [sample_job]"
proof -
  have can: "jobs_canonical (\<lambda>_. ''job'') sample_server" by (simp add: jobs_canonical_def)
  show ?thesis
    using delete_cancels_canonical_text [OF can, of "''JOB''" sample_scan NoFault]
      delete_cancels_canonical_text [OF can, of "''job''" sample_scan NoFault] by simp
qed

lemma get_job_answers_witness:
  "wstatus (HandleGetJob (\<lambda>_. ''job'') (GetJob sample_scan NoFault ''x'' (one_job_db 6))) = Some 400"
  using get_job_answers [of "one_job_db 6" "\<lambda>_. ''job''" sample_scan NoFault "''x''"]
  by (simp add: sample_scan_def)

end
