(* ===== verification/JobRun.thy ===== *)
theory JobRun
  imports PoolRuns JobsApi
begin

text \<open>
  One job from the request that creates it to what a client is told about it: \<open>HandleCreateJob\<close>
  inserts the row and launches the pipeline, the pipeline runs in any interleaving with any
  faults and cancellations, and \<open>HandleGetJob\<close> reads the row at any moment. The pipeline of this
  job is the only one that runs.
\<close>

section \<open>Which paths are let through\<close>

definition digest :: "pool_cfg \<Rightarrow> string \<Rightarrow> string" where
  "digest c p = (case cfg_bytes c p of Bytes b \<Rightarrow> cfg_sha c (take 65536 b) | _ \<Rightarrow> [])"

definition readable :: "pool_cfg \<Rightarrow> string \<Rightarrow> bool" where
  "readable c p \<longleftrightarrow> (case cfg_bytes c p of Bytes _ \<Rightarrow> True | _ \<Rightarrow> False)"

definition checker_paths :: "checker \<Rightarrow> string multiset" where
  "checker_paths x = (case x of CHave p \<Rightarrow> {#p#} | CPut p \<Rightarrow> {#p#} | _ \<Rightarrow> {#})"

definition put_digests :: "pool_cfg \<Rightarrow> checker \<Rightarrow> string multiset" where
  "put_digests c x = (case x of CPut p \<Rightarrow> {#digest c p#} | _ \<Rightarrow> {#})"

definition put_readable :: "pool_cfg \<Rightarrow> checker \<Rightarrow> bool" where
  "put_readable c x = (case x of CPut p \<Rightarrow> readable c p | _ \<Rightarrow> True)"

fun unfed_paths :: "main_state \<Rightarrow> string multiset" where
  "unfed_paths (MFeed ps) = mset ps"
| "unfed_paths _ = {#}"

definition all_paths :: "pool \<Rightarrow> string multiset" where
  "all_paths s = unfed_paths (main s) + mset (files s) + mset (accepted s)
     + sum_list (map checker_paths (checkers s))"

definition inv_paths :: "pool_cfg \<Rightarrow> pool \<Rightarrow> bool" where
  "inv_paths c s \<longleftrightarrow> all_paths s \<subseteq># mset (cfg_paths c) \<and>
     list_all (readable c) (accepted s) \<and> list_all (put_readable c) (checkers s)"

lemma check_file_digest:
  "check_file (cfg_sha c) u f p (cfg_bytes c p) d = (True, d') \<Longrightarrow>
   readable c p \<and> source_files d' = source_files d @ [\<lparr>sf_job = u, file_path = p, checksum = digest c p\<rparr>]"
  by (auto simp: readable_def digest_def dest!: check_file_accepts)

lemma all_paths_step: "pool_step c s s' \<Longrightarrow> all_paths s' \<subseteq># all_paths s"
  by (induction rule: pool_step.induct)
    (auto simp: all_paths_def others_update checker_paths_def dest!: others_split [where f = checker_paths])

lemma list_all_at: "list_all P xs \<Longrightarrow> xs ! i = x \<Longrightarrow> i < length xs \<Longrightarrow> P x"
  by (auto simp: list_all_length)

lemma readable_step:
  "pool_step c s s' \<Longrightarrow> list_all (readable c) (accepted s) \<Longrightarrow> list_all (put_readable c) (checkers s) \<Longrightarrow>
   list_all (readable c) (accepted s') \<and> list_all (put_readable c) (checkers s')"
  by (induction rule: pool_step.induct)
    (auto simp: put_readable_def intro!: list_all_update dest: check_file_digest dest!: list_all_at)

lemma inv_paths: "pool_reachable c d s \<Longrightarrow> inv_paths c s"
proof (induction rule: pool_reachable_induct)
  case (start s0)
  then show ?case
    by (auto simp: pool_start_def inv_paths_def all_paths_def checker_paths_def put_readable_def
        list_all_length sum_list_replicate_empty split: if_splits)
next
  case (step s s')
  then show ?case
    using all_paths_step [OF step.hyps(2)] readable_step [OF step.hyps(2)]
    by (auto simp: inv_paths_def intro: subset_mset.order_trans)
qed

text \<open>Every path let through left its own checksum in the table, however the checkers interleave.\<close>

definition checksums :: "db \<Rightarrow> string multiset" where
  "checksums d = mset (map checksum (source_files d))"

definition inv_recorded :: "pool_cfg \<Rightarrow> db \<Rightarrow> pool \<Rightarrow> bool" where
  "inv_recorded c d s \<longleftrightarrow>
     checksums d + mset (map (digest c) (accepted s)) + sum_list (map (put_digests c) (checkers s))
       \<subseteq># checksums (database s)"

lemma checksums_check:
  "check_file (cfg_sha c) u f p (cfg_bytes c p) d = (True, d') \<Longrightarrow> checksums d' = add_mset (digest c p) (checksums d)"
  by (simp add: checksums_def check_file_digest)

lemma checksums_grow:
  "check_file sha u f p fl d = (ok, d') \<Longrightarrow> checksums d \<subseteq># checksums d'"
  by (auto simp: checksums_def check_file_def Let_def run_stmt_def dest!: insert_source_effect
      split: file_read.splits prod.splits sum.splits fault.splits)

lemma checksums_same:
  "checksums (snd (UpdateJobProgress f u n d)) = checksums d"
  "checksums (snd (UpdateJobStatus f u st t d)) = checksums d"
  "checksums (report_failed u f now d) = checksums d"
  "BulkDatabaseCopy (pg_CopyFrom inet f) b d = (r, d') \<Longrightarrow> checksums d' = checksums d"
  by (auto simp: checksums_def progress_frame status_frame report_failed_def dest!: pg_copy_frame)

lemma add_mset_subseteq: "add_mset a A \<subseteq># B \<Longrightarrow> A \<subseteq># B"
  by (meson mset_subset_eq_insertD subset_mset.less_imp_le)

lemma inv_recorded_step: "pool_step c s s' \<Longrightarrow> inv_recorded c d s \<Longrightarrow> inv_recorded c d s'"
proof (induction rule: pool_step.induct)
  case (check_insert i s p f isNew d')
  then show ?case
    using checksums_grow [OF check_insert(3)]
    by (cases isNew)
      (auto simp: inv_recorded_def others_update put_digests_def checksums_check ac_simps
        dest!: others_split [where f = "put_digests c"] intro: subset_mset.order_trans)
next
  case (check_quit i s p)
  then show ?case
    by (auto simp: inv_recorded_def others_update put_digests_def
        dest!: others_split [where f = "put_digests c"] add_mset_subseteq)
qed (auto simp: inv_recorded_def others_update put_digests_def checksums_same
    dest!: others_split [where f = "put_digests c"] checksums_same(4))

lemma inv_recorded: "pool_reachable c d s \<Longrightarrow> inv_recorded c d s"
proof (induction rule: pool_reachable_induct)
  case (start s0)
  then show ?case
    by (auto simp: pool_start_def inv_recorded_def put_digests_def sum_list_replicate_empty split: if_splits)
qed (rule inv_recorded_step)

section \<open>The row of the job\<close>

definition job_counts :: "db \<Rightarrow> UUID \<Rightarrow> (int \<times> int) option" where
  "job_counts d u = map_option (\<lambda>r. (TotalFiles r, FilesDone r)) (job_map d u)"

lemma job_counts_status: "job_counts (snd (UpdateJobStatus f v st t d)) u = job_counts d u"
  by (auto simp: job_counts_def UpdateJobStatus_def run_stmt_def update_status_stmt_def job_map_rows
      option.map_comp comp_def split: fault.split sum.split prod.split)

lemma job_counts_check: "check_file sha v f p fl d = (ok, d') \<Longrightarrow> job_counts d' u = job_counts d u"
  by (auto simp: job_counts_def job_map_def dest!: check_file_frame)

lemma job_counts_copy:
  "BulkDatabaseCopy (pg_CopyFrom inet f) b d = (res, d') \<Longrightarrow> job_counts d' u = job_counts d u"
  by (auto simp: job_counts_def job_map_def dest!: pg_copy_frame)

lemma job_counts_progress:
  "job_counts d u = Some (n, k) \<Longrightarrow>
   job_counts (snd (UpdateJobProgress f u 1 d)) u = Some (n, k) \<or>
   job_counts (snd (UpdateJobProgress f u 1 d)) u = Some (n, k + 1)"
  by (auto simp: job_counts_def UpdateJobProgress_def run_stmt_def update_progress_stmt_def job_map_rows
      split: fault.split sum.split prod.split)

definition openings :: "pool_cfg \<Rightarrow> string list \<Rightarrow> int" where
  "openings c ps = int (length (filter (file_opens c) ps))"

lemma openings_simps [simp]:
  "openings c [] = 0" "openings c (ps @ qs) = openings c ps + openings c qs"
  "openings c (p # ps) = (if file_opens c p then 1 else 0) + openings c ps"
  by (simp_all add: openings_def)

lemma openings_nonneg [simp]: "0 \<le> openings c ps"
  by (simp add: openings_def)

definition reader_opens :: "pool_cfg \<Rightarrow> reader \<Rightarrow> int" where
  "reader_opens c x =
     (case x of RGot p \<Rightarrow> openings c [p] | RSend p _ \<Rightarrow> openings c [p] | RCount p _ _ \<Rightarrow> openings c [p] | _ \<Rightarrow> 0)"

definition let_through :: "pool_cfg \<Rightarrow> pool \<Rightarrow> int" where
  \<comment> \<open>the files let through that no reader has in its hands any more\<close>
  "let_through c s =
     openings c (accepted s) - openings c (validFiles s) - sum_list (map (reader_opens c) (readers s))"

lemma let_through_step: "pool_step c s s' \<Longrightarrow> inv_control s \<Longrightarrow> let_through c s \<le> let_through c s'"
  by (induction rule: pool_step.induct)
    (auto simp: let_through_def inv_control_def others_update reader_opens_def sum_list_replicate
      simp del: sum_list_eq_0_iff dest!: others_split [where f = "reader_opens c"])

lemma job_counts_step:
  "pool_step c s s' \<Longrightarrow> job_counts (database s') (cfg_job c) = job_counts (database s) (cfg_job c) \<or>
   (\<exists>f. database s' = snd (UpdateJobProgress f (cfg_job c) 1 (database s)) \<and>
        let_through c s' = let_through c s + 1)"
  by (induction rule: pool_step.induct)
    (auto simp: let_through_def others_update reader_opens_def job_counts_status report_failed_def
      simp del: sum_list_eq_0_iff
      dest: job_counts_check job_counts_copy dest!: others_split [where f = "reader_opens c"])

definition inv_progress :: "pool_cfg \<Rightarrow> int \<Rightarrow> pool \<Rightarrow> bool" where
  "inv_progress c n s \<longleftrightarrow>
     (\<exists>k. job_counts (database s) (cfg_job c) = Some (n, k) \<and> 0 \<le> k \<and> k \<le> let_through c s)"

lemma inv_progress:
  assumes "pool_reachable c d s" "job_counts d (cfg_job c) = Some (n, 0)"
  shows "inv_progress c n s"
  using assms(1)
proof (induction rule: pool_reachable_induct)
  case (start s0)
  then show ?case
    using assms(2) by (auto simp: pool_start_def inv_progress_def let_through_def split: if_splits)
next
  case (step s s')
  then obtain k where k: "job_counts (database s) (cfg_job c) = Some (n, k)" "0 \<le> k" "k \<le> let_through c s"
    by (auto simp: inv_progress_def)
  note more = let_through_step [OF step.hyps(2) inv_control [OF step.hyps(1)]]
  show ?case
    using job_counts_step [OF step.hyps(2)]
  proof
    assume "\<exists>f. database s' = snd (UpdateJobProgress f (cfg_job c) 1 (database s)) \<and>
      let_through c s' = let_through c s + 1"
    then show ?thesis using job_counts_progress [OF k(1)] k(2,3) by (force simp: inv_progress_def)
  qed (use k more in \<open>simp add: inv_progress_def\<close>)
qed

section \<open>What the counts are worth\<close>

text \<open>The contents of the files of a job that can be read and opened and that no earlier job recorded.\<close>

definition new_content :: "pool_cfg \<Rightarrow> db \<Rightarrow> string set" where
  "new_content c d =
     digest c ` {p \<in> set (cfg_paths c). readable c p \<and> file_opens c p} - checksum ` set (source_files d)"

lemma new_content_length: "card (new_content c d) \<le> length (cfg_paths c)"
proof -
  have "card (new_content c d) \<le> card (digest c ` set (cfg_paths c))"
    unfolding new_content_def by (intro card_mono) auto
  also have "\<dots> \<le> length (cfg_paths c)" using card_image_le [of "set (cfg_paths c)"] card_length le_trans by blast
  finally show ?thesis .
qed

lemma sources_ok_step: "pool_step c s s' \<Longrightarrow> sources_ok (database s) \<Longrightarrow> sources_ok (database s')"
  by (induction rule: pool_step.induct)
    (auto simp: sources_ok_def progress_frame status_frame report_failed_def
      dest: pg_copy_frame dest!: check_file_frame)

lemma schema_progress: "schema (snd (UpdateJobProgress f u n d)) = schema d"
  by (auto simp: UpdateJobProgress_def run_stmt_def update_progress_stmt_def jobs_rows_def
      split: fault.split sum.split prod.split)

lemma schema_step: "pool_step c s s' \<Longrightarrow> schema (database s') = schema (database s)"
  by (induction rule: pool_step.induct)
    (auto simp: schema_progress status_frame report_failed_def dest: pg_copy_frame check_file_frame)

lemma pool_database:
  assumes "pool_reachable c d s" "sources_ok d"
  shows "sources_ok (database s) \<and> schema (database s) = schema d"
  using assms(1)
proof (induction rule: pool_reachable_induct)
  case (start s0)
  then show ?case using assms(2) by (auto simp: pool_start_def split: if_splits)
qed (simp add: sources_ok_step schema_step)

lemma distinct_submset: "mset xs \<subseteq># mset ys \<Longrightarrow> distinct ys \<Longrightarrow> distinct xs"
  by (metis distinct_append ex_mset mset_append mset_eq_imp_distinct_iff subset_mset.add_diff_inverse)

lemma accepted_contents:
  assumes "pool_reachable c d s" "sources_ok d"
  shows "distinct (map (digest c) (accepted s)) \<and> set (accepted s) \<subseteq> {p \<in> set (cfg_paths c). readable c p} \<and>
    digest c ` set (accepted s) \<inter> checksum ` set (source_files d) = {}"
proof -
  have "mset (map checksum (source_files d) @ map (digest c) (accepted s)) \<subseteq># checksums (database s)"
    using inv_recorded [OF assms(1)]
    by (auto simp: inv_recorded_def checksums_def intro: subset_mset.order_trans [OF mset_subset_eq_add_left])
  then have "distinct (map checksum (source_files d) @ map (digest c) (accepted s))"
    using distinct_submset pool_database [OF assms] unfolding sources_ok_def checksums_def by blast
  moreover have "mset (accepted s) \<subseteq># mset (cfg_paths c)" "list_all (readable c) (accepted s)"
    using inv_paths [OF assms(1)]
    by (auto simp: inv_paths_def all_paths_def intro: subset_mset.order_trans [rotated])
  ultimately show ?thesis by (auto simp: list_all_iff dest: mset_subset_eqD)
qed

lemma openings_accepted:
  assumes "pool_reachable c d s" "sources_ok d"
  shows "openings c (accepted s) \<le> int (card (new_content c d))"
proof -
  let ?ps = "filter (file_opens c) (accepted s)"
  note acc = accepted_contents [OF assms]
  have "distinct (map (digest c) ?ps)" using acc by (simp add: distinct_map_filter)
  then have "length ?ps = card (digest c ` set ?ps)" using distinct_card [of "map (digest c) ?ps"] by simp
  also have "\<dots> \<le> card (new_content c d)"
    unfolding new_content_def using acc by (intro card_mono) auto
  finally show ?thesis by (simp add: openings_def)
qed

lemma let_through_openings: "let_through c s \<le> openings c (accepted s)"
proof -
  have "0 \<le> sum_list (map (reader_opens c) (readers s))"
    by (intro sum_list_nonneg) (auto simp: reader_opens_def split: reader.splits)
  then show ?thesis using openings_nonneg [of c "validFiles s"] unfolding let_through_def by linarith
qed

section \<open>Properties\<close>

text \<open>
  C7: What a client is told of a job: after \<open>HandleCreateJob\<close> answered 202, whatever the
  pipeline's interleaving, faults and cancellations, at every moment the job can be looked up
  under its identifier; its total is the number of matched files, and its count of read files and
  its percentage are bounded by the number of distinct new contents among them: files that cannot be
  read or opened, files that an earlier job recorded and repeated contents are never counted, so
  the percentage is at most 100, and it is 100 only when every matched file is new and distinct.
\<close>

theorem job_progress_end_to_end:
  assumes "HandleCreateJob uS glob (cfg_job c) t1 t2 f dir s = (w, s')" "wstatus w = Some 202"
    and "launched s' = launched s @ [(cfg_job c, cfg_paths c)]"
    and "Valid (cfg_job c)" "sources_ok (Store s)" "uuid_Scan str = Inr (cfg_job c)"
    and "pool_reachable c (Store s') p"
  shows "\<exists>row. GetJob uuid_Scan NoFault str (database p) = Inr row \<and>
    TotalFiles row = int (length (cfg_paths c)) \<and>
    0 \<le> FilesDone row \<and> FilesDone row \<le> int (card (new_content c (Store s))) \<and>
    ProgressPct (jobRowToResponse uS row)
      \<le> int (card (new_content c (Store s))) * 100 div int (length (cfg_paths c)) \<and>
    ProgressPct (jobRowToResponse uS row) \<le> 100 \<and>
    (ProgressPct (jobRowToResponse uS row) = 100 \<longrightarrow>
       card (new_content c (Store s)) = length (cfg_paths c) \<and> FilesDone row = TotalFiles row)"
proof -
  let ?n = "int (length (cfg_paths c))" and ?k = "int (card (new_content c (Store s)))"
  from create_job_accepted [OF assms(1,2,4)] assms(3)
  have made: "job_counts (Store s') (cfg_job c) = Some (?n, 0)" "int4_range ?n" "2 \<le> schema (Store s')"
    "source_files (Store s') = source_files (Store s)" "0 < ?n"
    by (auto simp: job_counts_def)
  have ok: "sources_ok (Store s')" using made(4) assms(5) by (simp add: sources_ok_def)
  have same: "new_content c (Store s') = new_content c (Store s)" using made(4) by (simp add: new_content_def)
  obtain k where k: "job_counts (database p) (cfg_job c) = Some (?n, k)" "0 \<le> k" "k \<le> let_through c p"
    using inv_progress [OF assms(7) made(1)] by (auto simp: inv_progress_def)
  then obtain row where row: "job_map (database p) (cfg_job c) = Some row" "TotalFiles row = ?n" "FilesDone row = k"
    by (auto simp: job_counts_def)
  have bound: "k \<le> ?k" "?k \<le> ?n"
    using k(3) let_through_openings [of c p] openings_accepted [OF assms(7) ok] new_content_length [of c "Store s"]
    by (simp_all add: same)
  have pct: "ProgressPct (jobRowToResponse uS row) = k * 100 div ?n"
    using progress_pct [of row uS] k(2) bound made(2) row by simp
  have low: "k * 100 div ?n < 100" if "k < ?n"
    using that made(5) by (intro div_less_of_mult) auto
  have "k * 100 div ?n \<le> ?k * 100 div ?n" "k * 100 div ?n \<le> ?n * 100 div ?n"
    using bound made(5) by (intro zdiv_mono1; simp)+
  moreover have "k = ?n \<and> ?k = ?n" if "k * 100 div ?n = 100" using that low bound by linarith
  moreover have "GetJob uuid_Scan NoFault str (database p) = Inr row"
    using GetJob_eq [of uuid_Scan str, OF assms(6)] pool_database [OF assms(7) ok] made(3) row(1) by simp
  ultimately show ?thesis using row(2,3) k(2) bound(1) made(5) pct by auto
qed

text \<open>
  C8: Concurrent duplicate detection: however the checkers interleave and whichever statements
  fail or lose their reply, the paths let through are readable paths of the job with pairwise
  different contents that no earlier job recorded, each is recorded in the table, and the table
  never holds a checksum twice.
\<close>

theorem pool_accepts_each_content_once:
  assumes "pool_reachable c d s" "sources_ok d"
  shows "distinct (map (digest c) (accepted s)) \<and> length (accepted s) \<le> length (cfg_paths c) \<and>
    (\<forall>p \<in> set (accepted s). p \<in> set (cfg_paths c) \<and> readable c p \<and>
       digest c p \<notin> checksum ` set (source_files d) \<and>
       digest c p \<in> checksum ` set (source_files (database s))) \<and>
    sources_ok (database s)"
proof -
  note acc = accepted_contents [OF assms]
  have "mset (map (digest c) (accepted s)) \<subseteq># checksums (database s)"
    using inv_recorded [OF assms(1)]
    by (auto simp: inv_recorded_def intro: subset_mset.order_trans [rotated])
  then have "digest c ` set (accepted s) \<subseteq> checksum ` set (source_files (database s))"
    using set_mset_mono by (fastforce simp: checksums_def)
  moreover have "length (accepted s) \<le> length (cfg_paths c)"
    using inv_paths [OF assms(1)] size_mset_mono [of "all_paths s" "mset (cfg_paths c)"]
    by (simp add: inv_paths_def all_paths_def)
  ultimately show ?thesis using acc pool_database [OF assms] by auto
qed

section \<open>Witnesses\<close>

text \<open>A directory with three files of the same content.\<close>

definition copies_cfg :: pool_cfg where
  "copies_cfg = sample_cfg\<lparr>cfg_paths := [''a'', ''b'', ''c'']\<rparr>"

definition copies_server :: Server where
  "copies_server = \<lparr>Store = empty_db 6, Jobs = Map.empty, ctx_cancelled = [], launched = [], DefaultSourceDir = ''/data''\<rparr>"

lemma copies_content: "new_content copies_cfg (empty_db 6) = {''0''}"
  by (auto simp: new_content_def copies_cfg_def digest_def readable_def file_opens_def sample_cfg_def empty_db_def)

lemma job_progress_end_to_end_witness:
  "\<exists>row. GetJob sample_scan NoFault ''job'' (one_job_db 6) = Inr row \<and>
     ProgressPct (jobRowToResponse (\<lambda>_. ''job'') row) \<le> 33"
proof -
  obtain w s' where c: "HandleCreateJob (\<lambda>_. ''job'') (\<lambda>_. Inr [''a'', ''b'', ''c'']) sample_job 0 0 NoFault
      ''/data'' copies_server = (w, s')" by fastforce
  then have s': "wstatus w = Some 202" "Store s' = one_job_db 6" "launched s' = [(sample_job, [''a'', ''b'', ''c''])]"
    using one_job_db_create [of 6] by (auto simp: HandleCreateJob_def copies_server_def Let_def http_defs)
  obtain s0 where start: "pool_start copies_cfg (one_job_db 6) = Some s0" "database s0 = one_job_db 6"
    by (simp add: pool_start_def copies_cfg_def)
  have "pool_reachable copies_cfg (Store s') s0" using start s'(2) by (auto simp: pool_reachable_def)
  from job_progress_end_to_end [OF _ s'(1) _ _ _ _ this, of "\<lambda>_. ''job''" "\<lambda>_. Inr [''a'', ''b'', ''c'']" 0 0
      NoFault "''/data''" copies_server sample_scan "''job''"] c s'
  show ?thesis
    by (simp add: start copies_server_def copies_content [unfolded copies_cfg_def empty_db_def] copies_cfg_def
        sources_ok_def empty_db_def) blast
qed

lemma pool_accepts_each_content_once_witness:
  "\<exists>s. pool_reachable sample_cfg sample_db s \<and> accepted s = [''a''] \<and>
     digest sample_cfg ''a'' \<in> checksum ` set (source_files (database s))"
  using pool_accepts_each_content_once [OF run_writing] run_writing sample_db_fields(2)
  by (intro exI conjI) (auto simp: sources_ok_def)

end
