(* ===== verification/PcapGen.thy ===== *)
theory PcapGen
  imports GoTime "HOL-Library.AList"
begin

text \<open>
  The generator of test captures, \<open>go-sniffer/internal/pcap/packageGenerator.go\<close> and
  \<open>go-sniffer/cmd/pcap-gen/main.go\<close>. gopacket's serializer is a parameter on the list of layers; a draw
  of \<open>rand.Intn\<close> is an arbitrary number reduced to its range. The data folder is the list of its
  entries; its path is assumed to hold no character that \<open>Glob\<close> interprets.
\<close>

section \<open>Packets\<close>

record TCPFlags =
  fSYN :: bool
  fACK :: bool
  fRST :: bool
  fFIN :: bool

record TrafficProfile =
  Name :: string
  Proto :: string
  pSrcIP :: "8 word list"
  pDstIP :: "8 word list"
  pSrcPort :: int
  pDstPort :: int
  PayloadMin :: int
  PayloadMax :: int
  Flags :: TCPFlags

datatype layer =
    Ethernet "8 word list" "8 word list"
  | IPv4Layer nat string "8 word list" "8 word list" \<comment> \<open>TTL, protocol, source, destination\<close>
  | TCPLayer "16 word" "16 word" TCPFlags
  | UDPLayer "16 word" "16 word"
  | Payload nat \<comment> \<open>so many zero bytes\<close>

definition ethLayer :: layer where
  "ethLayer = Ethernet [0x00, 0x0F, 0xAA, 0xBB, 0xCC, 0xDD] [0x00, 0x0F, 0x11, 0x22, 0x33, 0x44]"

text \<open>\<open>rand.Intn\<close> and \<open>make([]byte, n)\<close> panic out of range: \<open>None\<close>.\<close>

definition Intn :: "int \<Rightarrow> nat \<Rightarrow> int option" where
  "Intn n draw = (if n \<le> 0 then None else Some (int draw mod n))"

definition payload :: "int \<Rightarrow> layer option" where
  "payload n = (if n < 0 then None else Some (Payload (nat n)))"

definition packet_layers :: "TrafficProfile \<Rightarrow> nat \<Rightarrow> layer list option" where
  "packet_layers profile draw =
     (let ip = (\<lambda>proto. IPv4Layer 64 proto (pSrcIP profile) (pDstIP profile));
          sport = word_of_int (pSrcPort profile); dport = word_of_int (pDstPort profile)
      in if Proto profile = ''TCP'' then
           (let ls = [ethLayer, ip ''TCP'', TCPLayer sport dport (Flags profile)] in
            if PayloadMin profile = 0 then Some ls
            else
              (case Intn (PayloadMax profile - PayloadMin profile + 1) draw of
                 None \<Rightarrow> None
               | Some r \<Rightarrow> map_option (\<lambda>p. ls @ [p]) (payload (PayloadMin profile + r))))
         else if Proto profile = ''UDP'' then
           (let ls = [ethLayer, ip ''UDP'', UDPLayer sport dport] in
            if PayloadMax profile > PayloadMin profile then
              (case Intn (PayloadMax profile - PayloadMin profile + 1) draw of
                 None \<Rightarrow> None
               | Some r \<Rightarrow> map_option (\<lambda>p. ls @ [p]) (payload (PayloadMin profile + r)))
            else map_option (\<lambda>p. ls @ [p]) (payload (PayloadMin profile)))
         else Some [])"

section \<open>One file\<close>

record CapturedPacket =
  cTimestamp :: nanos
  CaptureLength :: nat
  cLength :: nat
  bytes :: "8 word list"

datatype gen_error =
    CreateFile string | WriteHeader string | Serialize nat string | WritePacket nat string
  | Flush string | Fsync string

text \<open>What the outside does during one \<open>Generate\<close>: its failures and its draws.\<close>

record gen_env =
  create_err :: "string option"
  header_err :: "string option"
  packet_err :: "nat \<Rightarrow> string option"
  flush_err :: "string option"
  sync_err :: "string option"
  pick :: "nat \<Rightarrow> nat"
  extra :: "nat \<Rightarrow> nat"

text \<open>The loop from packet \<open>i\<close>, with \<open>k\<close> left; \<open>None\<close> is a panic.\<close>

fun generate_packets ::
  "(layer list \<Rightarrow> string + 8 word list) \<Rightarrow> gen_env \<Rightarrow> TrafficProfile list \<Rightarrow> nat \<Rightarrow> nat \<Rightarrow> nanos \<Rightarrow>
   (gen_error + CapturedPacket list) option"
where
  "generate_packets serialize env profiles i 0 packetTime = Some (Inr [])"
| "generate_packets serialize env profiles i (Suc k) packetTime =
     (case Intn (int (length profiles)) (pick env i) of
        None \<Rightarrow> None
      | Some c \<Rightarrow>
          (case packet_layers (profiles ! nat c) (extra env i) of
             None \<Rightarrow> None
           | Some ls \<Rightarrow>
               (case (if ls = [] then Inr [] else serialize ls) of
                  Inl e \<Rightarrow> Some (Inl (Serialize i e))
                | Inr bs \<Rightarrow>
                    (let info = \<lparr>cTimestamp = packetTime, CaptureLength = length bs, cLength = length bs, bytes = bs\<rparr> in
                     case packet_err env i of
                       Some e \<Rightarrow> Some (Inl (WritePacket i e))
                     | None \<Rightarrow>
                         map_option (map_sum id ((#) info))
                           (generate_packets serialize env profiles (Suc i) k
                              (packetTime + 10 * Millisecond))))))"

text \<open>A file that was not written to its end is torn: what the buffers let through is not fixed.\<close>

datatype capture = Capture "CapturedPacket list" | Torn

type_synonym folder = "(string \<times> capture) list"

definition Generate ::
  "(layer list \<Rightarrow> string + 8 word list) \<Rightarrow> gen_env \<Rightarrow> string \<Rightarrow> int \<Rightarrow> nanos \<Rightarrow> TrafficProfile list \<Rightarrow>
   folder \<Rightarrow> (gen_error option \<times> folder) option"
where
  "Generate serialize env filename packetCount packetTime profiles d =
     (case create_err env of
        Some e \<Rightarrow> Some (Some (CreateFile e), d)
      | None \<Rightarrow>
          (let torn = AList.update filename Torn d in
           case header_err env of
             Some e \<Rightarrow> Some (Some (WriteHeader e), torn)
           | None \<Rightarrow>
               (case generate_packets serialize env profiles 0 (nat packetCount) packetTime of
                  None \<Rightarrow> None
                | Some (Inl e) \<Rightarrow> Some (Some e, torn)
                | Some (Inr ps) \<Rightarrow>
                    (case flush_err env of
                       Some e \<Rightarrow> Some (Some (Flush e), torn)
                     | None \<Rightarrow>
                         (case sync_err env of
                            Some e \<Rightarrow> Some (Some (Fsync e), torn)
                          | None \<Rightarrow> Some (None, AList.update filename (Capture ps) d))))))"

section \<open>A folder of files\<close>

definition no_flags :: TCPFlags where
  "no_flags = \<lparr>fSYN = False, fACK = False, fRST = False, fFIN = False\<rparr>"

definition traffic_profiles :: "TrafficProfile list" where
  "traffic_profiles =
     [\<lparr>Name = ''Bulk Data Stream'', Proto = ''UDP'', pSrcIP = [74, 125, 3, 199], pDstIP = [10, 5, 7, 113],
       pSrcPort = 443, pDstPort = 61256, PayloadMin = 1200, PayloadMax = 1300, Flags = no_flags\<rparr>,
      \<lparr>Name = ''TCP Connection Reset'', Proto = ''TCP'', pSrcIP = [10, 5, 7, 113], pDstIP = [54, 90, 39, 78],
       pSrcPort = 63040, pDstPort = 443, PayloadMin = 0, PayloadMax = 0, Flags = no_flags\<lparr>fRST := True\<rparr>\<rparr>,
      \<lparr>Name = ''MDNS Local Discovery'', Proto = ''UDP'', pSrcIP = [10, 5, 7, 182], pDstIP = [224, 0, 0, 251],
       pSrcPort = 5353, pDstPort = 5353, PayloadMin = 150, PayloadMax = 250, Flags = no_flags\<rparr>]"

definition first_packet_time :: nanos where
  "first_packet_time = (days_from_civil 2026 3 7 * 86400 + 14 * 3600 + 30 * 60) * Second"

definition HasSuffix :: "string \<Rightarrow> string \<Rightarrow> bool" where
  "HasSuffix s suf \<longleftrightarrow> length suf \<le> length s \<and> drop (length s - length suf) s = suf"

definition HasPrefix :: "string \<Rightarrow> string \<Rightarrow> bool" where
  "HasPrefix s pre \<longleftrightarrow> take (length pre) s = pre"

definition Glob_pcap :: "folder \<Rightarrow> string list" where
  "Glob_pcap d = filter (\<lambda>n. HasSuffix n ''.pcap'') (map fst d)"

definition batch_name :: "int \<Rightarrow> string" where
  "batch_name i = ''test_batch_'' @ Itoa i @ ''.pcap''"

text \<open>\<open>ensureDir\<close>, with what \<open>Stat\<close> and \<open>MkdirAll\<close> answer; a folder that is made is empty.\<close>

definition ensureDir :: "string option \<Rightarrow> folder option \<Rightarrow> string option \<times> folder option" where
  "ensureDir mkdirErr fd =
     (case fd of
        Some d \<Rightarrow> (None, Some d)
      | None \<Rightarrow> (case mkdirErr of Some e \<Rightarrow> (Some e, None) | None \<Rightarrow> (None, Some [])))"

text \<open>
  The goroutines write different files; they are run here in the order in which they start. \<open>Wait\<close>
  waits for all of them and gives one of their errors, the first here.
\<close>

fun generate_batches ::
  "(layer list \<Rightarrow> string + 8 word list) \<Rightarrow> (int \<Rightarrow> gen_env) \<Rightarrow> int \<Rightarrow> int \<Rightarrow> int list \<Rightarrow> folder \<Rightarrow>
   (gen_error option \<times> folder) option"
where
  "generate_batches serialize env found packetsPerFile [] d = Some (None, d)"
| "generate_batches serialize env found packetsPerFile (i # is) d =
     (case Generate serialize (env i) (batch_name (found + i)) packetsPerFile
             (first_packet_time + go_int (3600 * Second * i)) traffic_profiles d of
        None \<Rightarrow> None
      | Some (e1, d1) \<Rightarrow>
          map_option (\<lambda>(e2, d2). (case e1 of None \<Rightarrow> e2 | Some e \<Rightarrow> Some e, d2))
            (generate_batches serialize env found packetsPerFile is d1))"

datatype outcome = DirError string | Skipped | GenFailed gen_error | Generated

definition GenerateFiles ::
  "(layer list \<Rightarrow> string + 8 word list) \<Rightarrow> (int \<Rightarrow> gen_env) \<Rightarrow> string option \<Rightarrow> int \<Rightarrow> int \<Rightarrow> folder option \<Rightarrow>
   (outcome \<times> folder option) option"
where
  "GenerateFiles serialize env mkdirErr wanted size0 fd =
     (let wanted = (if wanted = 0 then 3 else wanted); size0 = (if size0 = 0 then 10 else size0) in
      case ensureDir mkdirErr fd of
        (Some e, fd1) \<Rightarrow> Some (DirError e, fd1)
      | (None, None) \<Rightarrow> Some (DirError [], None)
      | (None, Some d) \<Rightarrow>
          (let found = int (length (Glob_pcap d)) in
           if found \<ge> wanted then Some (Skipped, Some d)
           else
             (let needed = wanted - found; packetsPerFile = go_int (size0 * 1250) in
              case generate_batches serialize env found packetsPerFile [1..needed] d of
                None \<Rightarrow> None
              | Some (Some e, d1) \<Rightarrow> Some (GenFailed e, Some d1)
              | Some (None, d1) \<Rightarrow> Some (Generated, Some d1))))"

definition RemoveFiles :: "(string \<Rightarrow> string option) \<Rightarrow> folder \<Rightarrow> folder" where
  "RemoveFiles removeErr d =
     (let matches = filter (\<lambda>n. HasPrefix n ''test_batch_'' \<and> HasSuffix n ''.pcap'') (map fst d) in
      fold (\<lambda>file d. case removeErr file of Some e \<Rightarrow> d | None \<Rightarrow> AList.delete file d) matches d)"

text \<open>The command: the flags' defaults are 10 files of 64 MB in \<open>./data/dumb_data\<close>.\<close>

definition DefaultDumbDataFolder :: string where "DefaultDumbDataFolder = ''./data/dumb_data''"

datatype gen_command =
    GenCmd "int option" "int option" "string option"
  | DeleteCmd "string option"

definition run_gen_command ::
  "(layer list \<Rightarrow> string + 8 word list) \<Rightarrow> (int \<Rightarrow> gen_env) \<Rightarrow> string option \<Rightarrow> (string \<Rightarrow> string option) \<Rightarrow>
   gen_command \<Rightarrow> (string \<Rightarrow> folder option) \<Rightarrow> (string \<Rightarrow> folder option) option"
where
  "run_gen_command serialize env mkdirErr removeErr cmd disk =
     (let folder_of = (\<lambda>flag. case flag of None \<Rightarrow> DefaultDumbDataFolder | Some s \<Rightarrow> s) in
      case cmd of
        GenCmd n size0 out \<Rightarrow>
          map_option (\<lambda>(_, fd). disk(folder_of out := fd))
            (GenerateFiles serialize env mkdirErr (case n of None \<Rightarrow> 10 | Some c \<Rightarrow> c)
               (case size0 of None \<Rightarrow> 64 | Some s \<Rightarrow> s) (disk (folder_of out)))
      | DeleteCmd out \<Rightarrow>
          Some (disk(folder_of out := map_option (RemoveFiles removeErr) (disk (folder_of out)))))"

section \<open>What a run that meets no error leaves\<close>

definition works :: "gen_env \<Rightarrow> bool" where
  "works env \<longleftrightarrow> create_err env = None \<and> header_err env = None \<and> (\<forall>i. packet_err env i = None) \<and>
     flush_err env = None \<and> sync_err env = None"

lemma profile_layers:
  "p \<in> set traffic_profiles \<Longrightarrow> \<exists>l ls. packet_layers p draw = Some (l # ls)"
  by (auto simp: traffic_profiles_def packet_layers_def Intn_def payload_def)

definition packet_of :: "(layer list \<Rightarrow> string + 8 word list) \<Rightarrow> gen_env \<Rightarrow> nat \<Rightarrow> nanos \<Rightarrow> CapturedPacket" where
  "packet_of serialize env i t =
     (let bs = projr (serialize (the (packet_layers (traffic_profiles ! (pick env i mod 3)) (extra env i))))
      in \<lparr>cTimestamp = t, CaptureLength = length bs, cLength = length bs, bytes = bs\<rparr>)"

lemma packet_of_time [simp]: "cTimestamp (packet_of serialize env i t) = t"
  by (simp add: packet_of_def Let_def)

lemma generate_packets_ok:
  assumes "works env" "\<forall>ls. \<exists>bs. serialize ls = Inr bs"
  shows "generate_packets serialize env traffic_profiles i k t =
    Some (Inr (map (\<lambda>j. packet_of serialize env (i + j) (t + int j * (10 * Millisecond))) [0..<k]))"
proof (induction k arbitrary: i t)
  case 0
  then show ?case by simp
next
  case (Suc k)
  have len: "length traffic_profiles = 3" by (simp add: traffic_profiles_def)
  have pick: "Intn (int (length traffic_profiles)) (pick env i) = Some (int (pick env i mod 3))"
    by (simp add: Intn_def len zmod_int)
  have "traffic_profiles ! (pick env i mod 3) \<in> set traffic_profiles" using len by (intro nth_mem) simp
  from profile_layers [OF this] obtain l ls where
    ls: "packet_layers (traffic_profiles ! (pick env i mod 3)) (extra env i) = Some (l # ls)" by blast
  obtain bs where bs: "serialize (l # ls) = Inr bs" using assms(2) by blast
  have tail: "map (\<lambda>j. packet_of serialize env (Suc (i + j)) (t + 10000000 + int j * 10000000)) [0..<k] =
      map (\<lambda>j. packet_of serialize env (i + j) (t + int j * (10 * Millisecond))) [Suc 0..<Suc k]"
    unfolding map_Suc_upt [symmetric] by (simp add: comp_def algebra_simps)
  have "[0..<Suc k] = 0 # [Suc 0..<Suc k]" by (rule upt_conv_Cons) simp
  moreover have "packet_of serialize env i t = \<lparr>cTimestamp = t, CaptureLength = length bs, cLength = length bs, bytes = bs\<rparr>"
    by (simp add: packet_of_def ls bs)
  ultimately show ?case
    using assms(1) Suc.IH [of "Suc i" "t + 10 * Millisecond"]
    by (simp add: pick ls bs works_def tail del: upt_Suc)
qed

definition batch_content ::
  "(layer list \<Rightarrow> string + 8 word list) \<Rightarrow> gen_env \<Rightarrow> int \<Rightarrow> int \<Rightarrow> capture"
where
  "batch_content serialize env packetsPerFile i =
     Capture (map (\<lambda>j. packet_of serialize env j
       (first_packet_time + go_int (3600 * Second * i) + int j * (10 * Millisecond))) [0..<nat packetsPerFile])"

lemma generate_batches_ok:
  assumes "\<forall>i. works (env i)" "\<forall>ls. \<exists>bs. serialize ls = Inr bs"
  shows "generate_batches serialize env found n is d =
    Some (None, fold (\<lambda>i d. AList.update (batch_name (found + i)) (batch_content serialize (env i) n i) d) is d)"
proof (induction "is" arbitrary: d)
  case (Cons i "is")
  have w: "works (env i)" using assms(1) by blast
  then have "create_err (env i) = None" "header_err (env i) = None" "flush_err (env i) = None"
    "sync_err (env i) = None" by (simp_all add: works_def)
  with Cons.IH show ?case
    by (simp add: Generate_def generate_packets_ok [OF w assms(2)] batch_content_def Let_def)
qed simp

lemma digit_char_inj: "a < 10 \<Longrightarrow> b < 10 \<Longrightarrow> digit_char a = digit_char b \<Longrightarrow> a = b"
  by (metis digit_val_digit_char option.inject)

lemma digits_inj: "digits m = digits n \<Longrightarrow> m = n"
proof (induction m arbitrary: n rule: less_induct)
  case (less m)
  have last: "last (digits x) = digit_char (x mod 10)" for x by (simp add: digits.simps [of x])
  have rest: "butlast (digits x) = (if x < 10 then [] else digits (x div 10))" for x
    by (simp add: digits.simps [of x])
  have "m mod 10 = n mod 10" using last less.prems digit_char_inj [of "m mod 10" "n mod 10"] by simp metis
  moreover have "m div 10 = n div 10"
  proof (cases "m < 10")
    case True
    then show ?thesis
      using rest [of m] rest [of n] less.prems digits_not_Nil [of "n div 10", symmetric] by (auto split: if_splits)
  next
    case False
    then have "digits (m div 10) = digits (n div 10)"
      using rest [of m] rest [of n] less.prems digits_not_Nil [of "m div 10", symmetric] by (auto split: if_splits)
    then show ?thesis using less.IH [of "m div 10"] False by simp
  qed
  ultimately show ?case by (metis div_mult_mod_eq)
qed

lemma batch_name_inj: "0 \<le> i \<Longrightarrow> 0 \<le> j \<Longrightarrow> batch_name i = batch_name j \<longleftrightarrow> i = j"
  using digits_inj [of "nat i" "nat j"] by (auto simp: batch_name_def Itoa_def)

lemma batch_name_suffix: "HasSuffix (batch_name i) ''.pcap''"
  by (simp add: HasSuffix_def batch_name_def)

lemma batch_name_prefix: "HasPrefix (batch_name i) ''test_batch_''"
  by (simp add: HasPrefix_def batch_name_def)

section \<open>The folder afterwards\<close>

lemma fold_update_other:
  "n \<notin> f ` set is \<Longrightarrow> map_of (fold (\<lambda>i d. AList.update (f i) (c i) d) is d) n = map_of d n"
  by (induction "is" arbitrary: d) (simp_all add: update_conv')

lemma fold_update_at:
  "distinct is \<Longrightarrow> inj_on f (set is) \<Longrightarrow> i \<in> set is \<Longrightarrow>
   map_of (fold (\<lambda>i d. AList.update (f i) (c i) d) is d) (f i) = Some (c i)"
proof (induction "is" arbitrary: d)
  case (Cons j "is")
  show ?case
  proof (cases "i = j")
    case True
    then have "f i \<notin> f ` set is" using Cons.prems by (auto dest: inj_onD)
    then show ?thesis using True by (simp add: fold_update_other update_conv')
  qed (use Cons in auto)
qed simp

lemma fold_update_keys:
  "fst ` set (fold (\<lambda>i d. AList.update (f i) (c i) d) is d) = fst ` set d \<union> f ` set is"
  by (induction "is" arbitrary: d) (auto simp: dom_update)

lemma fold_update_distinct:
  "distinct (map fst d) \<Longrightarrow> distinct (map fst (fold (\<lambda>i d. AList.update (f i) (c i) d) is d))"
  by (induction "is" arbitrary: d) (simp_all add: distinct_update)

lemma Glob_card: "distinct (map fst d) \<Longrightarrow> length (Glob_pcap d) = card {n \<in> fst ` set d. HasSuffix n ''.pcap''}"
  using distinct_card [OF distinct_filter [of "map fst d" "\<lambda>n. HasSuffix n ''.pcap''"]]
  unfolding Glob_pcap_def set_filter set_map by simp

lemma fold_delete:
  "map_of (fold AList.delete ns d) n = (if n \<in> set ns then None else map_of d n)"
  by (induction ns arbitrary: d) (simp_all add: delete_conv')

lemma RemoveFiles_result:
  "map_of (RemoveFiles (\<lambda>_. None) d) n =
     (if HasPrefix n ''test_batch_'' \<and> HasSuffix n ''.pcap'' then None else map_of d n)"
proof -
  have "n \<notin> fst ` set d \<Longrightarrow> map_of d n = None" by (simp add: map_of_eq_None_iff)
  then show ?thesis by (auto simp: RemoveFiles_def fold_delete)
qed

lemma shifted_image: "(\<lambda>i. f (m + i)) ` {1..n - m} = f ` {m<..n}" for m n :: int
proof -
  have "(+) m ` {1..n - m} = {m<..n}"
    using image_add_atLeastAtMost [of m 1 "n - m"] by (auto simp: add.commute)
  then show ?thesis by (metis image_image)
qed

lemma generated_glob:
  fixes d d' :: folder
  assumes "distinct (map fst d)" "distinct (map fst d')"
    and "fst ` set d' = fst ` set d \<union> batch_name ` {found<..wanted}"
    and "found = int (length (Glob_pcap d))" "found \<le> wanted"
  shows "int (length (Glob_pcap d')) =
    wanted - int (card {i \<in> {found<..wanted}. map_of d (batch_name i) \<noteq> None})"
proof -
  let ?new = "batch_name ` {found<..wanted}"
  let ?old = "{n \<in> fst ` set d. HasSuffix n ''.pcap''}"
  let ?over = "{i \<in> {found<..wanted}. map_of d (batch_name i) \<noteq> None}"
  have "inj_on batch_name {found<..wanted}" using assms(4) by (auto simp: inj_on_def batch_name_inj)
  moreover from this have "inj_on batch_name ?over" by (rule inj_on_subset) blast
  ultimately have new: "card ?new = nat (wanted - found)" "card (batch_name ` ?over) = card ?over"
    using card_image by fastforce+
  have both: "?old \<inter> ?new = batch_name ` ?over"
    using batch_name_suffix by (auto simp: map_of_eq_None_iff)
  have "length (Glob_pcap d') = card {n \<in> fst ` set d'. HasSuffix n ''.pcap''}"
    by (rule Glob_card [OF assms(2)])
  also have "{n \<in> fst ` set d'. HasSuffix n ''.pcap''} = ?old \<union> ?new"
    unfolding assms(3) using batch_name_suffix by auto
  finally have "length (Glob_pcap d') + card ?over = card ?old + card ?new"
    using card_Un_Int [of ?old ?new] both new(2) by simp
  then show ?thesis using Glob_card [OF assms(1)] assms(4,5) new(1) by simp
qed

lemma fold_update_shifted:
  assumes "0 \<le> found" "found < i" "i \<le> wanted"
  shows "map_of (fold (\<lambda>j d. AList.update (batch_name (found + j)) (c j) d) [1..wanted - found] d) (batch_name i) =
    Some (c (i - found))"
proof -
  have "inj_on (\<lambda>j. batch_name (found + j)) (set [1..wanted - found])"
    using assms(1) by (auto simp: inj_on_def batch_name_inj)
  moreover have "i - found \<in> set [1..wanted - found]" using assms by simp
  ultimately show ?thesis
    using fold_update_at [OF distinct_upto, of "\<lambda>j. batch_name (found + j)" 1 "wanted - found" "i - found" c d] by simp
qed

section \<open>Properties\<close>

text \<open>
  C22: A generation that meets no error: if the folder holds enough captures nothing happens.
  Otherwise it writes the files numbered from the number of captures found plus one up to the number
  wanted, each complete with 1250 packets per requested megabyte, 10 ms apart, an hour between the
  files; every other file stays as it is. It goes by the number of captures, not by their names: a
  number whose file exists is overwritten, and then there are fewer captures than wanted, one less
  for each overwritten file. Removal deletes these files, with every other one of that name.
\<close>

theorem generate_files_result:
  fixes d :: folder
  assumes "distinct (map fst d)" "\<forall>i. works (env i)" "\<forall>ls. \<exists>bs. serialize ls = Inr bs"
    and "0 < wanted" "0 < size_mb" "size_mb * 1250 < 2 ^ 63" "found = int (length (Glob_pcap d))"
    and "3600 * Second * wanted < 2 ^ 63"
  shows "if wanted \<le> found then GenerateFiles serialize env None wanted size_mb (Some d) = Some (Skipped, Some d)
    else \<exists>d'. GenerateFiles serialize env None wanted size_mb (Some d) = Some (Generated, Some d') \<and>
      (\<forall>i. found < i \<and> i \<le> wanted \<longrightarrow>
         (\<exists>ps. map_of d' (batch_name i) = Some (Capture ps) \<and> int (length ps) = size_mb * 1250 \<and>
            (\<forall>k < length ps. cTimestamp (ps ! k) =
               first_packet_time + (i - found) * 3600 * Second + int k * (10 * Millisecond)))) \<and>
      (\<forall>n. n \<notin> batch_name ` {found<..wanted} \<longrightarrow> map_of d' n = map_of d n) \<and>
      int (length (Glob_pcap d')) =
        wanted - int (card {i \<in> {found<..wanted}. map_of d (batch_name i) \<noteq> None}) \<and>
      (\<forall>n. map_of (RemoveFiles (\<lambda>_. None) d') n =
         (if HasPrefix n ''test_batch_'' \<and> HasSuffix n ''.pcap'' then None else map_of d n))"
proof (cases "wanted \<le> found")
  case True
  then show ?thesis using assms(4,5,7) by (simp add: GenerateFiles_def ensureDir_def)
next
  case False
  let ?is = "[1..wanted - found]"
  let ?d = "fold (\<lambda>i d. AList.update (batch_name (found + i)) (batch_content serialize (env i) (size_mb * 1250) i) d)
    ?is d"
  let ?new = "batch_name ` {found<..wanted}"
  have found: "0 \<le> found" using assms(7) by simp
  have run: "GenerateFiles serialize env None wanted size_mb (Some d) = Some (Generated, Some ?d)"
    using False assms(4-7)
    by (simp add: GenerateFiles_def ensureDir_def go_int_id generate_batches_ok [OF assms(2,3)] Let_def)
  have names: "(\<lambda>i. batch_name (found + i)) ` set ?is = ?new"
    using shifted_image [of batch_name found wanted] by simp
  have content: "\<exists>ps. map_of ?d (batch_name i) = Some (Capture ps) \<and> int (length ps) = size_mb * 1250 \<and>
      (\<forall>k < length ps. cTimestamp (ps ! k) =
         first_packet_time + (i - found) * 3600 * Second + int k * (10 * Millisecond))"
    if "found < i \<and> i \<le> wanted" for i
  proof -
    have at: "map_of ?d (batch_name i) = Some (batch_content serialize (env (i - found)) (size_mb * 1250) (i - found))"
      by (rule fold_update_shifted [OF found]) (use that in auto)
    have "go_int (3600 * Second * (i - found)) = (i - found) * 3600 * Second"
      using that found assms(8) by (subst go_int_id) auto
    then show ?thesis using assms(5) at by (simp add: batch_content_def)
  qed
  have other: "map_of ?d n = map_of d n" if "n \<notin> ?new" for n
    by (rule fold_update_other) (simp only: names that not_False_eq_True)
  have keys: "fst ` set ?d = fst ` set d \<union> ?new" unfolding fold_update_keys names ..
  have glob: "int (length (Glob_pcap ?d)) =
      wanted - int (card {i \<in> {found<..wanted}. map_of d (batch_name i) \<noteq> None})"
    using generated_glob [OF assms(1) fold_update_distinct [OF assms(1)] keys assms(7)] False by simp
  have removed: "map_of (RemoveFiles (\<lambda>_. None) ?d) n =
      (if HasPrefix n ''test_batch_'' \<and> HasSuffix n ''.pcap'' then None else map_of d n)" for n
    using other [of n] batch_name_prefix batch_name_suffix by (auto simp: RemoveFiles_result)
  show ?thesis
    unfolding if_not_P [OF False] by (intro exI [of _ ?d] conjI allI impI) (use run content other glob removed in simp_all)
qed

definition calm :: gen_env where
  "calm = \<lparr>create_err = None, header_err = None, packet_err = (\<lambda>_. None), flush_err = None, sync_err = None,
     pick = id, extra = id\<rparr>"

text \<open>A folder whose only capture is \<open>test_batch_2.pcap\<close>: asking for two leaves one.\<close>

lemma generate_files_result_witness:
  "\<exists>d'. GenerateFiles (\<lambda>_. Inr []) (\<lambda>_. calm) None 2 1 (Some [(''test_batch_2.pcap'', Torn)]) =
      Some (Generated, Some d') \<and> length (Glob_pcap d') = 1"
proof -
  let ?d = "[(''test_batch_2.pcap'', Torn)]"
  have name: "batch_name 2 = ''test_batch_2.pcap''"
    by code_simp
  have found: "1 = int (length (Glob_pcap ?d))" by (simp add: Glob_pcap_def HasSuffix_def)
  have "{i \<in> {1<..2}. map_of ?d (batch_name i) \<noteq> None} = {2}" by (auto simp: name)
  with generate_files_result [OF _ _ _ _ _ _ found, where wanted = 2 and size_mb = 1 and serialize = "\<lambda>_. Inr []"
      and env = "\<lambda>_. calm"]
  show ?thesis by (auto simp: works_def calm_def)
qed

end
