(* ===== verification/Sessions.thy ===== *)
theory Sessions
  imports JobStore
begin

text \<open>
  live-sniffer's store of capture sessions, \<open>live-sniffer/internal/storage/sessions.go\<close>, on the
  table \<open>capture_sessions\<close>.
\<close>

section \<open>The code\<close>

definition StatusStart :: string where "StatusStart = ''starting''"
definition StatusRunning :: string where "StatusRunning = ''running''"
definition StatusFinish :: string where "StatusFinish = ''finished''"
definition StatusCrashed :: string where "StatusCrashed = ''crashed''"

lemmas statuses = StatusStart_def StatusRunning_def StatusFinish_def StatusCrashed_def

text \<open>The statement that takes over an earlier session of the interface, and what it matches.\<close>

definition resumable :: "string \<Rightarrow> SessionRow \<Rightarrow> bool" where
  "resumable iface r \<longleftrightarrow> session_iface r = iface \<and> session_status r \<in> {''stopped'', ''crashed''}"

definition resume_stmt :: "string \<Rightarrow> nanos \<Rightarrow> string \<Rightarrow> UUID option stmt" where
  "resume_stmt status now iface d =
     (if schema d < 5 then Inl undefined_table
      else Inr (map_option session_id (find (resumable iface) (capture_sessions d)),
        d\<lparr>capture_sessions := map (\<lambda>r. if resumable iface r
            then r\<lparr>session_status := status, started_at := pg_timestamp now, ended_at := None\<rparr> else r)
          (capture_sessions d)\<rparr>))"

definition insert_session_stmt :: "UUID \<Rightarrow> string \<Rightarrow> nanos \<Rightarrow> string \<Rightarrow> UUID stmt" where
  "insert_session_stmt u iface now status d =
     (if schema d < 5 then Inl undefined_table
      else if list_ex (\<lambda>r. uuid_eq (session_id r) u) (capture_sessions d) then Inl unique_violation
      else Inr (u, d\<lparr>capture_sessions := capture_sessions d @
             [\<lparr>session_id = u, session_iface = iface, started_at = pg_timestamp now, ended_at = None,
               session_status = status, packets_saved = 0\<rparr>]\<rparr>))"

definition update_session_stmt :: "string \<Rightarrow> UUID \<Rightarrow> unit stmt" where
  "update_session_stmt status u d =
     (if schema d < 5 then Inl undefined_table
      else Inr ((), d\<lparr>capture_sessions := map (\<lambda>r. if uuid_eq (session_id r) u
            then r\<lparr>session_status := status\<rparr> else r) (capture_sessions d)\<rparr>))"

definition select_status_stmt :: "UUID \<Rightarrow> string option stmt" where
  "select_status_stmt u d =
     (if schema d < 5 then Inl undefined_table
      else Inr (map_option session_status (find (\<lambda>r. uuid_eq (session_id r) u) (capture_sessions d)), d))"

definition select_sessions_stmt :: "SessionRow list stmt" where
  "select_sessions_stmt d =
     (if schema d < 5 then Inl undefined_table
      else Inr (sort_key (\<lambda>r. - started_at r) (capture_sessions d), d))"

text \<open>\<open>fresh\<close> is the identifier the database picks; the two statements have a fault each.\<close>

definition StartSession ::
  "UUID \<Rightarrow> nanos \<Rightarrow> nanos \<Rightarrow> fault \<Rightarrow> fault \<Rightarrow> string \<Rightarrow> db \<Rightarrow> (db_error + UUID) \<times> db"
where
  "StartSession fresh t1 t2 f1 f2 iface d =
     (case run_stmt f1 (resume_stmt StatusStart t1 iface) d of
        (Inr (Some u), d1) \<Rightarrow> (Inr u, d1)
      | (Inl e, d1) \<Rightarrow> (Inl e, d1)
      | (Inr None, d1) \<Rightarrow> run_stmt f2 (insert_session_stmt fresh iface t2 StatusStart) d1)"

definition UpdateSession :: "fault \<Rightarrow> UUID \<Rightarrow> string \<Rightarrow> db \<Rightarrow> db" where
  "UpdateSession f u status d = snd (run_stmt f (update_session_stmt status u) d)"

definition GetSessionStatus :: "fault \<Rightarrow> UUID \<Rightarrow> db \<Rightarrow> db_error option + string" where
  \<comment> \<open>\<open>Inl None\<close> is \<open>pgx.ErrNoRows\<close>\<close>
  "GetSessionStatus f u d =
     (case fst (run_stmt f (select_status_stmt u) d) of
        Inl e \<Rightarrow> Inl (Some e) | Inr None \<Rightarrow> Inl None | Inr (Some s) \<Rightarrow> Inr s)"

definition GetSessions :: "fault \<Rightarrow> db \<Rightarrow> db_error + SessionRow list" where
  "GetSessions f d = fst (run_stmt f select_sessions_stmt d)"

section \<open>Facts\<close>

definition session_map :: "db \<Rightarrow> UUID \<rightharpoonup> SessionRow" where
  "session_map d u = find (\<lambda>r. uuid_eq (session_id r) u) (capture_sessions d)"

definition sessions_ok :: "db \<Rightarrow> bool" where
  "sessions_ok d \<longleftrightarrow> list_all Valid (map session_id (capture_sessions d)) \<and>
     distinct (map session_id (capture_sessions d))"

text \<open>No statement of the program ends a session or counts its packets.\<close>

definition never_ended :: "db \<Rightarrow> bool" where
  "never_ended d \<longleftrightarrow> list_all (\<lambda>r. ended_at r = None \<and> packets_saved r = 0) (capture_sessions d)"

lemma map_sessions_preserves:
  assumes "\<And>r. session_id (g r) = session_id r" "\<And>r. ended_at r = None \<Longrightarrow> ended_at (g r) = None"
    and "\<And>r. packets_saved (g r) = packets_saved r" "sessions_ok d \<and> never_ended d"
  shows "sessions_ok (d\<lparr>capture_sessions := map g (capture_sessions d)\<rparr>) \<and>
    never_ended (d\<lparr>capture_sessions := map g (capture_sessions d)\<rparr>)"
proof -
  have ids: "map session_id (map g (capture_sessions d)) = map session_id (capture_sessions d)"
    using assms(1) by simp
  have cs: "capture_sessions (d\<lparr>capture_sessions := map g (capture_sessions d)\<rparr>) = map g (capture_sessions d)"
    by simp
  show ?thesis
    unfolding sessions_ok_def never_ended_def cs ids
    using assms(2-4) by (simp add: sessions_ok_def never_ended_def list_all_iff)
qed

lemma resume_preserves:
  "sessions_ok d \<and> never_ended d \<Longrightarrow> resume_stmt st t iface d = Inr (x, d') \<Longrightarrow> sessions_ok d' \<and> never_ended d'"
  using map_sessions_preserves [of "\<lambda>r. if resumable iface r
      then r\<lparr>session_status := st, started_at := pg_timestamp t, ended_at := None\<rparr> else r" d]
  by (auto simp: resume_stmt_def split: if_splits)

lemma insert_session_preserves:
  "Valid u \<Longrightarrow> sessions_ok d \<and> never_ended d \<Longrightarrow> insert_session_stmt u iface t st d = Inr (x, d') \<Longrightarrow>
   sessions_ok d' \<and> never_ended d'"
  by (auto simp: insert_session_stmt_def sessions_ok_def never_ended_def list_ex_iff split: if_splits)
    (metis uuid_eq_refl)

lemma StartSession_preserves:
  assumes "Valid fresh" "sessions_ok d \<and> never_ended d"
  shows "sessions_ok (snd (StartSession fresh t1 t2 f1 f2 iface d)) \<and>
    never_ended (snd (StartSession fresh t1 t2 f1 f2 iface d))"
proof -
  let ?P = "\<lambda>d. sessions_ok d \<and> never_ended d"
  obtain r d1 where first: "run_stmt f1 (resume_stmt StatusStart t1 iface) d = (r, d1)" by fastforce
  have "?P (snd (run_stmt f1 (resume_stmt StatusStart t1 iface) d))"
    by (rule run_stmt_preserves) (use resume_preserves [OF assms(2)] assms(2) in blast)+
  then have d1: "?P d1" by (simp add: first)
  have "?P (snd (run_stmt f2 (insert_session_stmt fresh iface t2 StatusStart) d1))"
    by (rule run_stmt_preserves) (use insert_session_preserves [OF assms(1) d1] d1 in blast)+
  then show ?thesis using d1 by (simp add: StartSession_def first split: sum.split option.split)
qed

lemma UpdateSession_preserves:
  assumes "sessions_ok d \<and> never_ended d"
  shows "sessions_ok (UpdateSession f u s d) \<and> never_ended (UpdateSession f u s d)"
  unfolding UpdateSession_def
proof (rule run_stmt_preserves)
  fix a d'
  assume "update_session_stmt s u d = Inr (a, d')"
  then show "sessions_ok d' \<and> never_ended d'"
    using map_sessions_preserves [OF _ _ _ assms, of "\<lambda>r. if uuid_eq (session_id r) u
        then r\<lparr>session_status := s\<rparr> else r"]
    by (auto simp: update_session_stmt_def split: if_splits)
qed (use assms in simp)

lemma find_session_map:
  "(\<And>r. session_id (g r) = session_id r) \<Longrightarrow>
   find (\<lambda>r. uuid_eq (session_id r) v) (map g rs) = map_option g (find (\<lambda>r. uuid_eq (session_id r) v) rs)"
  by (induction rs) auto

lemma session_map_id: "session_map d v = Some r \<Longrightarrow> session_id r = v \<and> r \<in> set (capture_sessions d)"
  by (auto simp: session_map_def find_Some_iff dest: uuid_eq_imp_eq)

lemma session_map_member:
  assumes "sessions_ok d" "r \<in> set (capture_sessions d)"
  shows "session_map d (session_id r) = Some r"
proof -
  have "Valid (session_id r)" using assms by (auto simp: sessions_ok_def list_all_iff)
  then have "session_map d (session_id r) \<noteq> None"
    using assms(2) by (auto simp: session_map_def find_None_iff)
  then obtain r' where r': "session_map d (session_id r) = Some r'" by blast
  then have "session_id r' = session_id r" "r' \<in> set (capture_sessions d)" using session_map_id by blast+
  then have "r' = r" using assms by (auto simp: sessions_ok_def distinct_map inj_on_def)
  then show ?thesis using r' by simp
qed

lemma session_map_update:
  assumes "5 \<le> schema d" "reached f" "Valid u"
  shows "session_map (UpdateSession f u s d) =
    (session_map d)(u := map_option (\<lambda>r. r\<lparr>session_status := s\<rparr>) (session_map d u))"
proof
  fix v
  let ?g = "\<lambda>r. if uuid_eq (session_id r) u then r\<lparr>session_status := s\<rparr> else r"
  have d': "UpdateSession f u s d = d\<lparr>capture_sessions := map ?g (capture_sessions d)\<rparr>"
    using assms(1,2) by (auto simp: UpdateSession_def run_stmt_def update_session_stmt_def reached_def split: fault.splits)
  have "session_map (UpdateSession f u s d) v = map_option ?g (session_map d v)"
    unfolding d' session_map_def by (simp add: find_session_map)
  also have "\<dots> = ((session_map d)(u := map_option (\<lambda>r. r\<lparr>session_status := s\<rparr>) (session_map d u))) v"
    using assms(3) by (cases "session_map d v") (auto dest: session_map_id simp: uuid_eq_def)
  finally show "session_map (UpdateSession f u s d) v =
    ((session_map d)(u := map_option (\<lambda>r. r\<lparr>session_status := s\<rparr>) (session_map d u))) v" .
qed

text \<open>What a start does to the rows: it keeps every row that nobody may take over.\<close>

lemma session_map_resume:
  "resume_stmt st t iface d = Inr (x, d') \<Longrightarrow>
   session_map d' v = map_option (\<lambda>r. if resumable iface r
      then r\<lparr>session_status := st, started_at := pg_timestamp t, ended_at := None\<rparr> else r) (session_map d v)"
  by (auto simp: resume_stmt_def session_map_def find_session_map split: if_splits)

lemma session_map_insert:
  "insert_session_stmt u iface t st d = Inr (x, d') \<Longrightarrow> Valid u \<Longrightarrow>
   x = u \<and> session_map d u = None \<and>
   session_map d' = (session_map d)(u \<mapsto> \<lparr>session_id = u, session_iface = iface, started_at = pg_timestamp t,
     ended_at = None, session_status = st, packets_saved = 0\<rparr>)"
proof -
  assume ins: "insert_session_stmt u iface t st d = Inr (x, d')" and u: "Valid u"
  let ?row = "\<lparr>session_id = u, session_iface = iface, started_at = pg_timestamp t,
     ended_at = None, session_status = st, packets_saved = 0\<rparr>"
  have d': "x = u" "d' = d\<lparr>capture_sessions := capture_sessions d @ [?row]\<rparr>"
    and new: "\<not> list_ex (\<lambda>r. uuid_eq (session_id r) u) (capture_sessions d)"
    using ins by (auto simp: insert_session_stmt_def split: if_splits)
  have none: "session_map d u = None" using new by (auto simp: session_map_def find_None_iff list_ex_iff)
  have "session_map d' v = ((session_map d)(u \<mapsto> ?row)) v" for v
    using none u by (auto simp: d' session_map_def find_append uuid_eq_def split: option.split)
  then show ?thesis using d' none by blast
qed

lemma resume_Some:
  "resume_stmt st t iface d = Inr (Some u, d') \<Longrightarrow>
   \<exists>r \<in> set (capture_sessions d). resumable iface r \<and> session_id r = u"
  by (auto simp: resume_stmt_def find_Some_iff split: if_splits)

lemma run_stmt_cases [consumes 1, case_names ran same]:
  assumes "run_stmt f st d = (res, d')"
  obtains a where "st d = Inr (a, d')" "\<forall>b. res = Inr b \<longrightarrow> b = a" | "d' = d" "\<forall>b. res \<noteq> Inr b"
  using assms by (auto simp: run_stmt_def split: fault.splits sum.splits)

lemma StartSession_cases [consumes 1, case_names failed resumed inserted]:
  assumes "StartSession fresh t1 t2 f1 f2 iface d = (res, d')"
  obtains "d' = d" "\<forall>u. res \<noteq> Inr u"
    | x where "resume_stmt StatusStart t1 iface d = Inr (x, d')" "\<forall>u. res = Inr u \<longrightarrow> x = Some u"
    | d1 x where "resume_stmt StatusStart t1 iface d = Inr (None, d1)"
        "insert_session_stmt fresh iface t2 StatusStart d1 = Inr (x, d')" "\<forall>u. res = Inr u \<longrightarrow> u = x"
proof -
  obtain r1 d1 where first: "run_stmt f1 (resume_stmt StatusStart t1 iface) d = (r1, d1)" by fastforce
  show thesis
  proof (cases r1)
    case (Inl e)
    then have res: "res = Inl e" "d' = d1" using assms first by (simp_all add: StartSession_def)
    from first show thesis by (cases rule: run_stmt_cases) (use that res in auto)
  next
    case (Inr o1)
    then have ran: "resume_stmt StatusStart t1 iface d = Inr (o1, d1)" using first by (simp add: run_stmt_Inr)
    show thesis
    proof (cases o1)
      case (Some u)
      then have "d1 = d'" "res = Inr u" using assms first Inr by (simp_all add: StartSession_def)
      then show thesis using that(2) [of o1] ran Some by simp
    next
      case None
      then have "run_stmt f2 (insert_session_stmt fresh iface t2 StatusStart) d1 = (res, d')"
        using assms first Inr by (simp add: StartSession_def)
      then show thesis
        by (cases rule: run_stmt_cases) (use that(2) [of o1] that(3) ran None in auto)
    qed
  qed
qed

lemma StartSession_keeps:
  assumes "StartSession fresh t1 t2 f1 f2 iface d = (res, d')" "Valid fresh" "sessions_ok d"
    and "session_map d u = Some r" "session_status r = StatusFinish"
  shows "session_map d' u = Some r \<and> res \<noteq> Inr u"
proof -
  have r: "\<not> resumable iface r" using assms(5) by (simp add: resumable_def statuses)
  have resumed: "session_map d1 u = Some r" if "resume_stmt StatusStart t1 iface d = Inr (x, d1)" for x d1
    using session_map_resume [OF that, of u] assms(4) r by simp
  have other: "x \<noteq> Some u" if "resume_stmt StatusStart t1 iface d = Inr (x, d1)" for x d1
  proof
    assume "x = Some u"
    with that have "resume_stmt StatusStart t1 iface d = Inr (Some u, d1)" by simp
    from resume_Some [OF this] obtain r' where
      "r' \<in> set (capture_sessions d)" "resumable iface r'" "session_id r' = u" by blast
    then show False using session_map_member [OF assms(3)] assms(4) r by fastforce
  qed
  from assms(1) show ?thesis
  proof (cases rule: StartSession_cases)
    case failed
    then show ?thesis using assms(4) by simp
  next
    case (resumed x)
    then show ?thesis using resumed(1) [THEN session_map_resume, of u] other assms(4) r by auto
  next
    case (inserted d1 x)
    have "x = fresh \<and> session_map d1 fresh = None \<and> session_map d' = (session_map d1)(fresh \<mapsto> the (session_map d' fresh))"
      using session_map_insert [OF inserted(2) assms(2)] by auto
    then show ?thesis using inserted(3) resumed [OF inserted(1)] by (metis fun_upd_apply option.distinct(1))
  qed
qed

lemma StartSession_result:
  assumes "StartSession fresh t1 t2 f1 f2 iface d = (Inr u, d')" "Valid fresh" "sessions_ok d"
  shows "Valid u \<and> (\<exists>r. session_map d' u = Some r \<and> session_status r = StatusStart \<and> session_iface r = iface)"
  using assms(1)
proof (cases rule: StartSession_cases)
  case failed
  then show ?thesis by simp
next
  case (resumed x)
  then obtain r where r: "r \<in> set (capture_sessions d)" "resumable iface r" "session_id r = u"
    using resume_Some by metis
  then show ?thesis
    using session_map_resume [OF resumed(1), of u] session_map_member [OF assms(3) r(1)] assms(3)
    by (auto simp: resumable_def sessions_ok_def list_all_iff)
next
  case (inserted d1 x)
  then show ?thesis using session_map_insert [OF inserted(2) assms(2)] assms(2) by auto
qed

lemma StartSession_dom:
  assumes "StartSession fresh t1 t2 f1 f2 iface d = (res, d')" "Valid fresh"
  shows "dom (session_map d) \<subseteq> dom (session_map d') \<and> schema d' = schema d"
  using assms(1)
proof (cases rule: StartSession_cases)
  case failed
  then show ?thesis by simp
next
  case (resumed x)
  then show ?thesis using session_map_resume [OF resumed(1)] by (auto simp: resume_stmt_def split: if_splits)
next
  case (inserted d1 x)
  have "dom (session_map d) \<subseteq> dom (session_map d1)" "schema d1 = schema d"
    using session_map_resume [OF inserted(1)] inserted(1) by (auto simp: resume_stmt_def split: if_splits)
  moreover have "schema d' = schema d1" using inserted(2) by (auto simp: insert_session_stmt_def split: if_splits)
  ultimately show ?thesis using session_map_insert [OF inserted(2) assms(2)] by auto
qed

section \<open>Properties\<close>

text \<open>
  C36: A session that was stopped is never resumed: the store looks for the statuses
  'stopped' and 'crashed', but stopping writes 'finished', so starting a capture on an interface
  whose sessions have the statuses that the program writes, other than 'crashed', always creates a
  new session; a crashed session is taken over under its old identifier.
\<close>

theorem start_session_result:
  assumes "5 \<le> schema d" "sessions_ok d" "Valid fresh" "session_map d fresh = None"
  shows "case StartSession fresh t1 t2 NoFault NoFault iface d of (res, d') \<Rightarrow>
    (if \<exists>r \<in> set (capture_sessions d). session_iface r = iface \<and> session_status r \<in> {''stopped'', StatusCrashed}
     then (\<exists>r \<in> set (capture_sessions d). session_iface r = iface \<and> res = Inr (session_id r) \<and>
             (\<exists>r'. session_map d' (session_id r) = Some r' \<and> session_status r' = StatusStart))
     else res = Inr fresh \<and> capture_sessions d' = capture_sessions d @
       [\<lparr>session_id = fresh, session_iface = iface, started_at = pg_timestamp t2, ended_at = None,
         session_status = StatusStart, packets_saved = 0\<rparr>])"
proof -
  let ?g = "\<lambda>r. if resumable iface r
      then r\<lparr>session_status := StatusStart, started_at := pg_timestamp t1, ended_at := None\<rparr> else r"
  let ?d1 = "d\<lparr>capture_sessions := map ?g (capture_sessions d)\<rparr>"
  have first: "run_stmt NoFault (resume_stmt StatusStart t1 iface) d =
      (Inr (map_option session_id (find (resumable iface) (capture_sessions d))), ?d1)"
    using assms(1) by (simp add: run_stmt_def resume_stmt_def)
  have stopped: "(\<exists>r \<in> set (capture_sessions d). session_iface r = iface \<and>
      session_status r \<in> {''stopped'', StatusCrashed}) \<longleftrightarrow> find (resumable iface) (capture_sessions d) \<noteq> None"
    by (auto simp: find_None_iff resumable_def StatusCrashed_def)
  show ?thesis
  proof (cases "find (resumable iface) (capture_sessions d)")
    case None
    have "\<forall>r \<in> set (capture_sessions d). \<not> resumable iface r" using None by (auto simp: find_None_iff)
    then have same: "map ?g (capture_sessions d) = capture_sessions d" by (intro map_idI) simp
    have "\<not> list_ex (\<lambda>r. uuid_eq (session_id r) fresh) (capture_sessions d)"
      using assms(4) by (auto simp: session_map_def find_None_iff list_ex_iff)
    then have "StartSession fresh t1 t2 NoFault NoFault iface d = (Inr fresh, d\<lparr>capture_sessions :=
        capture_sessions d @ [\<lparr>session_id = fresh, session_iface = iface, started_at = pg_timestamp t2,
          ended_at = None, session_status = StatusStart, packets_saved = 0\<rparr>]\<rparr>)"
      using assms(1) unfolding StartSession_def first None same
      by (simp add: run_stmt_def insert_session_stmt_def)
    then show ?thesis unfolding stopped by (simp add: None)
  next
    case (Some r)
    have r: "r \<in> set (capture_sessions d)" "resumable iface r" using Some by (auto simp: find_Some_iff)
    have "session_map ?d1 (session_id r) = map_option ?g (session_map d (session_id r))"
      by (simp add: session_map_def find_session_map)
    then have "session_map ?d1 (session_id r) = Some (?g r)"
      using session_map_member [OF assms(2) r(1)] by simp
    moreover have "StartSession fresh t1 t2 NoFault NoFault iface d = (Inr (session_id r), ?d1)"
      unfolding StartSession_def first Some by simp
    ultimately show ?thesis unfolding stopped using r by (auto simp: Some resumable_def intro!: bexI [of _ r])
  qed
qed

definition stopped_db :: db where
  "stopped_db = (empty_db 6)\<lparr>capture_sessions := [\<lparr>session_id = sample_job, session_iface = ''eth0'',
     started_at = 0, ended_at = None, session_status = StatusFinish, packets_saved = 0\<rparr>]\<rparr>"

definition other_id :: UUID where
  "other_id = \<lparr>UBytes = replicate 16 2, Valid = True\<rparr>"

lemma start_session_result_witness:
  "fst (StartSession other_id 0 0 NoFault NoFault ''eth0'' stopped_db) = Inr other_id"
proof -
  have "5 \<le> schema stopped_db" "sessions_ok stopped_db" "Valid other_id" "session_map stopped_db other_id = None"
    by (simp_all add: stopped_db_def empty_db_def sessions_ok_def session_map_def other_id_def uuid_eq_def sample_job_def)
  note result = start_session_result [OF this, where iface = "''eth0''"]
  show ?thesis
    using result [of 0 0] by (simp add: stopped_db_def statuses split: prod.splits)
qed

end
