(* ===== verification/Proto.thy ===== *)
theory Proto
  imports GoStrings
begin

text \<open>
  The messages between the \<open>nls\<close> command and its daemon, \<open>live-sniffer/internal/proto/proto.go\<close>, and
  what \<open>encoding/json\<close> does with their struct tags: \<open>omitempty\<close>, names matched exactly and then
  without regard to case, unknown names skipped, null, and values of the wrong type. A message is
  the JSON value; its text (escapes and white space) is not modelled. A decoder returns the struct
  and whether it met an error; it goes on after an error, as the library does.
\<close>

section \<open>JSON values and struct fields\<close>

datatype json =
    JNull | JBool bool | JNum string | JStr string
  | JList "json list" | JObj "(string \<times> json) list"

text \<open>
  \<open>encoding/json\<close>'s folding of a name, on its bytes: ASCII upper case, and the two other runes that
  fold to an ASCII letter (U+017F and the Kelvin sign U+212A).
\<close>

fun foldName :: "string \<Rightarrow> string" where
  "foldName [] = []"
| "foldName (c # s) =
     (if c = CHR 0xC5 \<and> take 1 s = [CHR 0xBF] then CHR ''S'' # foldName (drop 1 s)
      else if c = CHR 0xE2 \<and> take 2 s = [CHR 0x84, CHR 0xAA] then CHR ''K'' # foldName (drop 2 s)
      else if 97 \<le> (of_char c :: nat) \<and> (of_char c :: nat) \<le> 122
      then char_of ((of_char c :: nat) - 32) # foldName s
      else c # foldName s)"

definition find_field :: "string list \<Rightarrow> string \<Rightarrow> string option" where
  "find_field names key =
     (if key \<in> set names then Some key else find (\<lambda>n. foldName n = foldName key) names)"

fun set_string :: "json \<Rightarrow> string \<Rightarrow> string \<times> bool" where
  "set_string (JStr s) old = (s, False)"
| "set_string JNull old = (old, False)"
| "set_string _ old = (old, True)"

fun set_bool :: "json \<Rightarrow> bool \<Rightarrow> bool \<times> bool" where
  "set_bool (JBool b) old = (b, False)"
| "set_bool JNull old = (old, False)"
| "set_bool _ old = (old, True)"

fun set_int :: "json \<Rightarrow> int \<Rightarrow> int \<times> bool" where
  "set_int (JNum s) old = (case Atoi s of Inr i \<Rightarrow> (i, False) | Inl _ \<Rightarrow> (old, True))"
| "set_int JNull old = (old, False)"
| "set_int _ old = (old, True)"

text \<open>A pointer is allocated before the value is looked at.\<close>

fun set_string_ptr :: "json \<Rightarrow> string option \<Rightarrow> string option \<times> bool" where
  "set_string_ptr JNull old = (None, False)"
| "set_string_ptr v old =
     (let (s, e) = set_string v (case old of None \<Rightarrow> [] | Some s \<Rightarrow> s) in (Some s, e))"

definition decode_struct ::
  "string list \<Rightarrow> (string \<Rightarrow> json \<Rightarrow> 'r \<Rightarrow> 'r \<times> bool) \<Rightarrow> json \<Rightarrow> 'r \<Rightarrow> 'r \<times> bool"
where
  "decode_struct names set_field v old =
     (case v of
        JNull \<Rightarrow> (old, False)
      | JObj ms \<Rightarrow>
          fold (\<lambda>(k, v) (r, e). case find_field names k of
                  None \<Rightarrow> (r, e)
                | Some n \<Rightarrow> (let (r', e') = set_field n v r in (r', e \<or> e'))) ms (old, False)
      | _ \<Rightarrow> (old, True))"

fun decode_elements :: "(json \<Rightarrow> 'r \<Rightarrow> 'r \<times> bool) \<Rightarrow> 'r \<Rightarrow> json list \<Rightarrow> 'r list \<Rightarrow> 'r list \<times> bool" where
  "decode_elements dec zero [] old = ([], False)"
| "decode_elements dec zero (v # vs) old =
     (let (r, e) = dec v (case old of [] \<Rightarrow> zero | o1 # _ \<Rightarrow> o1);
          (rs, e') = decode_elements dec zero vs (tl old)
      in (r # rs, e \<or> e'))"

definition set_slice :: "(json \<Rightarrow> 'r \<Rightarrow> 'r \<times> bool) \<Rightarrow> 'r \<Rightarrow> json \<Rightarrow> 'r list \<Rightarrow> 'r list \<times> bool" where
  "set_slice dec zero v old =
     (case v of JNull \<Rightarrow> ([], False) | JList vs \<Rightarrow> decode_elements dec zero vs old | _ \<Rightarrow> (old, True))"

text \<open>A member of an object that \<open>omitempty\<close> may leave out.\<close>

definition omitempty :: "bool \<Rightarrow> string \<Rightarrow> json \<Rightarrow> (string \<times> json) list" where
  "omitempty absent name v = (if absent then [] else [(name, v)])"

section \<open>The messages\<close>

definition CmdStart :: string where "CmdStart = ''start''"
definition CmdStop :: string where "CmdStop = ''stop''"
definition CmdShutdown :: string where "CmdShutdown = ''shutdown''"
definition CmdStatus :: string where "CmdStatus = ''status''"

lemmas commands = CmdStart_def CmdStop_def CmdShutdown_def CmdStatus_def

record Request =
  Command :: string
  Interface :: string
  Workers :: int
  SessionID :: string

record Session =
  sID :: string
  sInterface :: string
  sStatus :: string
  sStartedAt :: string
  sEndedAt :: "string option"
  sPacketsSaved :: int

record Response =
  OK :: bool
  Error :: string
  rSessionID :: string
  rSessions :: "Session list"

definition no_request :: Request where
  "no_request = \<lparr>Command = [], Interface = [], Workers = 0, SessionID = []\<rparr>"

definition no_session :: Session where
  "no_session = \<lparr>sID = [], sInterface = [], sStatus = [], sStartedAt = [], sEndedAt = None, sPacketsSaved = 0\<rparr>"

definition no_response :: Response where
  "no_response = \<lparr>OK = False, Error = [], rSessionID = [], rSessions = []\<rparr>"

definition encode_Request :: "Request \<Rightarrow> json" where
  "encode_Request r = JObj
     ([(''command'', JStr (Command r))] @
      omitempty (Interface r = []) ''interface'' (JStr (Interface r)) @
      omitempty (Workers r = 0) ''workers'' (JNum (Itoa (Workers r))) @
      omitempty (SessionID r = []) ''session_id'' (JStr (SessionID r)))"

definition encode_Session :: "Session \<Rightarrow> json" where
  "encode_Session s = JObj
     ([(''session_id'', JStr (sID s)), (''interface'', JStr (sInterface s)),
       (''status'', JStr (sStatus s)), (''started_at'', JStr (sStartedAt s))] @
      (case sEndedAt s of None \<Rightarrow> [] | Some t \<Rightarrow> [(''ended_at'', JStr t)]) @
      [(''packets_saved'', JNum (Itoa (sPacketsSaved s)))])"

definition encode_Response :: "Response \<Rightarrow> json" where
  "encode_Response r = JObj
     ([(''ok'', JBool (OK r))] @
      omitempty (Error r = []) ''error'' (JStr (Error r)) @
      omitempty (rSessionID r = []) ''session_id'' (JStr (rSessionID r)) @
      omitempty (rSessions r = []) ''sessions'' (JList (map encode_Session (rSessions r))))"

definition set_Request :: "string \<Rightarrow> json \<Rightarrow> Request \<Rightarrow> Request \<times> bool" where
  "set_Request n v r =
     (if n = ''command'' then (let (s, e) = set_string v (Command r) in (r\<lparr>Command := s\<rparr>, e))
      else if n = ''interface'' then (let (s, e) = set_string v (Interface r) in (r\<lparr>Interface := s\<rparr>, e))
      else if n = ''workers'' then (let (i, e) = set_int v (Workers r) in (r\<lparr>Workers := i\<rparr>, e))
      else (let (s, e) = set_string v (SessionID r) in (r\<lparr>SessionID := s\<rparr>, e)))"

definition decode_Request :: "json \<Rightarrow> Request \<times> bool" where
  "decode_Request v =
     decode_struct [''command'', ''interface'', ''workers'', ''session_id''] set_Request v no_request"

definition set_Session :: "string \<Rightarrow> json \<Rightarrow> Session \<Rightarrow> Session \<times> bool" where
  "set_Session n v r =
     (if n = ''session_id'' then (let (s, e) = set_string v (sID r) in (r\<lparr>sID := s\<rparr>, e))
      else if n = ''interface'' then (let (s, e) = set_string v (sInterface r) in (r\<lparr>sInterface := s\<rparr>, e))
      else if n = ''status'' then (let (s, e) = set_string v (sStatus r) in (r\<lparr>sStatus := s\<rparr>, e))
      else if n = ''started_at'' then (let (s, e) = set_string v (sStartedAt r) in (r\<lparr>sStartedAt := s\<rparr>, e))
      else if n = ''ended_at'' then (let (t, e) = set_string_ptr v (sEndedAt r) in (r\<lparr>sEndedAt := t\<rparr>, e))
      else (let (i, e) = set_int v (sPacketsSaved r) in (r\<lparr>sPacketsSaved := i\<rparr>, e)))"

definition decode_Session :: "json \<Rightarrow> Session \<Rightarrow> Session \<times> bool" where
  "decode_Session =
     decode_struct [''session_id'', ''interface'', ''status'', ''started_at'', ''ended_at'', ''packets_saved'']
       set_Session"

definition set_Response :: "string \<Rightarrow> json \<Rightarrow> Response \<Rightarrow> Response \<times> bool" where
  "set_Response n v r =
     (if n = ''ok'' then (let (b, e) = set_bool v (OK r) in (r\<lparr>OK := b\<rparr>, e))
      else if n = ''error'' then (let (s, e) = set_string v (Error r) in (r\<lparr>Error := s\<rparr>, e))
      else if n = ''session_id'' then (let (s, e) = set_string v (rSessionID r) in (r\<lparr>rSessionID := s\<rparr>, e))
      else (let (ss, e) = set_slice decode_Session no_session v (rSessions r) in (r\<lparr>rSessions := ss\<rparr>, e)))"

definition decode_Response :: "json \<Rightarrow> Response \<times> bool" where
  "decode_Response v =
     decode_struct [''ok'', ''error'', ''session_id'', ''sessions''] set_Response v no_response"

section \<open>Round trips\<close>

lemma find_field_exact [simp]: "key \<in> set names \<Longrightarrow> find_field names key = Some key"
  by (simp add: find_field_def)

lemma decode_encode_Request:
  "int64_range (Workers r) \<Longrightarrow> decode_Request (encode_Request r) = (r, False)"
  by (cases r) (auto simp: decode_Request_def encode_Request_def decode_struct_def omitempty_def
      no_request_def set_Request_def Atoi_Itoa)

lemma decode_encode_Session:
  "int64_range (sPacketsSaved s) \<Longrightarrow> decode_Session (encode_Session s) no_session = (s, False)"
  by (cases s) (auto simp: decode_Session_def encode_Session_def decode_struct_def
      no_session_def set_Session_def Atoi_Itoa split: option.split)

text \<open>
  What the two sides of a connection rely on: a value that fits the machine's integers is read back
  as it was written, without an error.
\<close>

locale codec =
  fixes encode :: "'a \<Rightarrow> json" and decode :: "json \<Rightarrow> 'a \<times> bool" and fits :: "'a \<Rightarrow> bool"
  assumes round_trip: "fits x \<Longrightarrow> decode (encode x) = (x, False)"
begin

lemma received: "fits x \<Longrightarrow> (let (y, err) = decode (encode x) in if err then a y else f y) = f x"
  by (simp add: round_trip)


end

lemma decode_encode_elements:
  "(\<And>s. s \<in> set ss \<Longrightarrow> int64_range (sPacketsSaved s)) \<Longrightarrow>
   decode_elements decode_Session no_session (map encode_Session ss) [] = (ss, False)"
  by (induction ss) (simp_all add: decode_encode_Session)

lemma decode_encode_Response:
  "(\<And>s. s \<in> set (rSessions r) \<Longrightarrow> int64_range (sPacketsSaved s)) \<Longrightarrow>
   decode_Response (encode_Response r) = (r, False)"
  by (cases r) (auto simp: decode_Response_def encode_Response_def decode_struct_def omitempty_def
      no_response_def set_Response_def set_slice_def decode_encode_elements)

interpretation request: codec encode_Request decode_Request "\<lambda>r. int64_range (Workers r)"
  by unfold_locales (rule decode_encode_Request)

interpretation response: codec encode_Response decode_Response
    "\<lambda>r. \<forall>s \<in> set (rSessions r). int64_range (sPacketsSaved s)"
proof unfold_locales
  fix r :: Response
  assume fits: "\<forall>s \<in> set (rSessions r). int64_range (sPacketsSaved s)"
  show "decode_Response (encode_Response r) = (r, False)"
    by (rule decode_encode_Response) (rule bspec [OF fits])
qed

end
