(* ===== verification/Launcher.thy ===== *)
theory Launcher
  imports Sessions Saver GoTime Proto
begin

text \<open>
  live-sniffer's pipelines, \<open>live-sniffer/internal/pipeline/pipeline.go\<close>. A context is a number: 0
  is the daemon's, and every capture has its own below it. The state is the database, the map of
  cancel functions, the contexts that were cancelled and the goroutines.

  The operations are functions that run alone; \<open>pipeline_step\<close> interleaves their parts with each
  other and with the savers that they start.
\<close>

section \<open>State\<close>

type_synonym ctx = nat

datatype goroutine =
    Starting ctx UUID "int list" \<comment> \<open>a start in progress, with the savers it has yet to make\<close>
  | Stopping UUID \<comment> \<open>a stop that cancelled and has yet to write the status\<close>
  | SaverLoop ctx UUID
  | SaverFailed ctx UUID \<comment> \<open>a write failed; \<open>onFailure\<close> is next\<close>
  | SaverReported ctx UUID \<comment> \<open>\<open>cancel\<close> is next\<close>
  | Listening ctx UUID
  | Returned

record Launcher =
  DB :: db
  Cancels :: "string \<rightharpoonup> ctx" \<comment> \<open>the field \<open>Sessions\<close>\<close>
  made :: ctx
  ended :: "ctx set"
  goroutines :: "goroutine list"

definition ctx_done :: "Launcher \<Rightarrow> ctx \<Rightarrow> bool" where
  "ctx_done l c \<longleftrightarrow> 0 \<in> ended l \<or> c \<in> ended l"

definition cancel_ctx :: "ctx \<Rightarrow> Launcher \<Rightarrow> Launcher" where
  "cancel_ctx c l = l\<lparr>ended := insert c (ended l)\<rparr>"

definition go :: "goroutine \<Rightarrow> Launcher \<Rightarrow> Launcher" where
  "go g l = l\<lparr>goroutines := goroutines l @ [g]\<rparr>"

definition becomes :: "nat \<Rightarrow> goroutine \<Rightarrow> Launcher \<Rightarrow> Launcher" where
  "becomes i g l = l\<lparr>goroutines := (goroutines l)[i := g]\<rparr>"

section \<open>Starting\<close>

datatype start_error =
    WorkerCount int | ProducerError string | ListenerError string | SessionError db_error
  | ConsumerError string

text \<open>What the outside answers to one start.\<close>

record start_env =
  producer_error :: "string option"
  listener_error :: "string option"
  fresh_id :: UUID
  resume_time :: nanos
  insert_time :: nanos
  resume_fault :: fault
  insert_fault :: fault
  consumer_error :: "int \<Rightarrow> string option"
  running_fault :: fault

text \<open>Everything up to the registration of the cancel function.\<close>

definition start_begin ::
  "(UUID \<Rightarrow> string) \<Rightarrow> start_env \<Rightarrow> string \<Rightarrow> int \<Rightarrow> Launcher \<Rightarrow> (start_error + UUID \<times> ctx) \<times> Launcher"
where
  "start_begin uuid_String env iface workerSaverCount l =
     (if workerSaverCount < 1 \<or> workerSaverCount > 10 then (Inl (WorkerCount workerSaverCount), l)
      else
        (case producer_error env of
           Some e \<Rightarrow> (Inl (ProducerError e), l)
         | None \<Rightarrow>
             (let c = Suc (made l); l1 = l\<lparr>made := c\<rparr> in
              case listener_error env of
                Some e \<Rightarrow> (Inl (ListenerError e), l1)
              | None \<Rightarrow>
                  (case StartSession (fresh_id env) (resume_time env) (insert_time env)
                       (resume_fault env) (insert_fault env) iface (DB l1) of
                     (Inl e, d) \<Rightarrow> (Inl (SessionError e), l1\<lparr>DB := d\<rparr>)
                   | (Inr sessionID, d) \<Rightarrow>
                       (Inr (sessionID, c),
                        l1\<lparr>DB := d, Cancels := (Cancels l1)(uuid_String sessionID \<mapsto> c)\<rparr>)))))"

fun launch_savers ::
  "(int \<Rightarrow> string option) \<Rightarrow> ctx \<Rightarrow> UUID \<Rightarrow> int list \<Rightarrow> Launcher \<Rightarrow> string option \<times> Launcher"
where
  "launch_savers newConsumer c u [] l = (None, l)"
| "launch_savers newConsumer c u (w # ws) l =
     (case newConsumer w of
        Some e \<Rightarrow> (Some e, l)
      | None \<Rightarrow> launch_savers newConsumer c u ws (go (SaverLoop c u) l))"

definition start_end :: "fault \<Rightarrow> ctx \<Rightarrow> UUID \<Rightarrow> Launcher \<Rightarrow> Launcher" where
  "start_end f c u l =
     (let l1 = go (Listening c u) l in l1\<lparr>DB := UpdateSession f u StatusRunning (DB l1)\<rparr>)"

definition StartPipeline ::
  "(UUID \<Rightarrow> string) \<Rightarrow> start_env \<Rightarrow> string \<Rightarrow> int \<Rightarrow> Launcher \<Rightarrow> (string \<times> start_error option) \<times> Launcher"
where
  "StartPipeline uuid_String env iface workerSaverCount l =
     (case start_begin uuid_String env iface workerSaverCount l of
        (Inl e, l1) \<Rightarrow> (([], Some e), l1)
      | (Inr (sessionID, c), l1) \<Rightarrow>
          (case launch_savers (consumer_error env) c sessionID [1..workerSaverCount] l1 of
             (Some e, l2) \<Rightarrow> ((uuid_String sessionID, Some (ConsumerError e)), l2)
           | (None, l2) \<Rightarrow>
               ((uuid_String sessionID, None), start_end (running_fault env) c sessionID l2)))"

section \<open>Stopping\<close>

definition unregister :: "string \<Rightarrow> Launcher \<Rightarrow> Launcher" where
  "unregister s l =
     (case Cancels l s of
        Some c \<Rightarrow> (cancel_ctx c l)\<lparr>Cancels := (Cancels l)(s := None)\<rparr>
      | None \<Rightarrow> l)"

definition stop_end :: "fault \<Rightarrow> UUID \<Rightarrow> Launcher \<Rightarrow> Launcher" where
  "stop_end f u l = l\<lparr>DB := UpdateSession f u StatusFinish (DB l)\<rparr>"

definition StopPipeline ::
  "(string \<Rightarrow> string + UUID) \<Rightarrow> fault \<Rightarrow> string \<Rightarrow> Launcher \<Rightarrow> string option \<times> Launcher"
where
  "StopPipeline uuid_Scan f sessionIDString l =
     (case uuid_Scan sessionIDString of
        Inl e \<Rightarrow> (Some e, l)
      | Inr sessionID \<Rightarrow> (None, stop_end f sessionID (unregister sessionIDString l)))"

text \<open>\<open>ids\<close> is the order in which the range over the map gives its keys.\<close>

definition StopAll ::
  "(string \<Rightarrow> string + UUID) \<Rightarrow> (string \<Rightarrow> fault) \<Rightarrow> string list \<Rightarrow> Launcher \<Rightarrow> Launcher"
where
  "StopAll uuid_Scan f ids l = fold (\<lambda>s l. snd (StopPipeline uuid_Scan (f s) s l)) ids l"

section \<open>Listing\<close>

text \<open>\<open>Format(time.RFC3339)\<close> in the process's zone, whose offset in seconds may vary with the time.\<close>

definition Format :: "(nanos \<Rightarrow> int) \<Rightarrow> nanos \<Rightarrow> string" where
  "Format zone t =
     (let off = zone t in
      if off = 0 then format_RFC3339 t
      else (let m = go_div off 60 in
            butlast (format_RFC3339 (t + off * Second)) @ (if m < 0 then ''-'' else ''+'') @
            fmt_int 2 (\<bar>m\<bar> div 60) @ '':'' @ fmt_int 2 (\<bar>m\<bar> mod 60)))"

definition view_row :: "(UUID \<Rightarrow> string) \<Rightarrow> (nanos \<Rightarrow> int) \<Rightarrow> SessionRow \<Rightarrow> Session" where
  "view_row uuid_String zone r =
     \<lparr>sID = uuid_String (session_id r), sInterface = session_iface r, sStatus = session_status r,
      sStartedAt = Format zone (started_at r), sEndedAt = map_option (Format zone) (ended_at r),
      sPacketsSaved = packets_saved r\<rparr>"

fun view_rows :: "(SessionRow \<Rightarrow> Session) \<Rightarrow> (db_error + SessionRow) list \<Rightarrow> Session list" where
  "view_rows view [] = []"
| "view_rows view (Inl e # rs) = view_rows view rs"
| "view_rows view (Inr r # rs) = view r # view_rows view rs"

definition ViewPipelines ::
  "(UUID \<Rightarrow> string) \<Rightarrow> (nanos \<Rightarrow> int) \<Rightarrow> db_error + SessionRow rows \<Rightarrow> Session list \<times> db_error option"
where
  "ViewPipelines uuid_String zone getSessions =
     (case getSessions of
        Inl e \<Rightarrow> ([], Some e)
      | Inr (rows, err) \<Rightarrow> (view_rows (view_row uuid_String zone) rows, err))"

section \<open>The savers' failure and the interleavings\<close>

definition onFailure :: "fault \<Rightarrow> UUID \<Rightarrow> db \<Rightarrow> db" where
  "onFailure f sessionID d = UpdateSession f sessionID StatusCrashed d"

text \<open>
  One step of one goroutine. A statement on a cancelled context does not reach the database
  (\<open>pgx\<close>); the statements of a request run on the daemon's context, \<open>onFailure\<close> on the pipeline's.
\<close>

inductive pipeline_step ::
  "(UUID \<Rightarrow> string) \<Rightarrow> (string \<Rightarrow> string + UUID) \<Rightarrow> (string \<Rightarrow> Addr option) \<Rightarrow> Launcher \<Rightarrow> Launcher \<Rightarrow> bool"
  for uuid_String uuid_Scan inet_in
where
  start_ok:
    "start_begin uuid_String env iface n l = (Inr (u, c), l') \<Longrightarrow> Valid (fresh_id env) \<Longrightarrow>
     pipeline_step uuid_String uuid_Scan inet_in l (go (Starting c u [1..n]) l')"
| start_fails:
    "start_begin uuid_String env iface n l = (Inl e, l') \<Longrightarrow> Valid (fresh_id env) \<Longrightarrow>
     pipeline_step uuid_String uuid_Scan inet_in l l'"
| start_saver:
    "i < length (goroutines l) \<Longrightarrow> goroutines l ! i = Starting c u (w # ws) \<Longrightarrow>
     pipeline_step uuid_String uuid_Scan inet_in l (go (SaverLoop c u) (becomes i (Starting c u ws) l))"
| start_no_consumer:
    "i < length (goroutines l) \<Longrightarrow> goroutines l ! i = Starting c u (w # ws) \<Longrightarrow>
     pipeline_step uuid_String uuid_Scan inet_in l (becomes i Returned l)"
| start_done:
    "i < length (goroutines l) \<Longrightarrow> goroutines l ! i = Starting c u [] \<Longrightarrow>
     ctx_done l c \<longrightarrow> \<not> reached f \<Longrightarrow>
     pipeline_step uuid_String uuid_Scan inet_in l (start_end f c u (becomes i Returned l))"
| stop_cancels:
    "uuid_Scan s = Inr u \<Longrightarrow>
     pipeline_step uuid_String uuid_Scan inet_in l (go (Stopping u) (unregister s l))"
| stop_done:
    "i < length (goroutines l) \<Longrightarrow> goroutines l ! i = Stopping u \<Longrightarrow>
     ctx_done l 0 \<longrightarrow> \<not> reached f \<Longrightarrow>
     pipeline_step uuid_String uuid_Scan inet_in l (stop_end f u (becomes i Returned l))"
| daemon_cancelled:
    "pipeline_step uuid_String uuid_Scan inet_in l (cancel_ctx 0 l)"
| saver_writes:
    "i < length (goroutines l) \<Longrightarrow> goroutines l ! i = SaverLoop c u \<Longrightarrow>
     BulkDatabaseCopy (pg_CopyFrom inet_in f) batch (DB l) = (None, d) \<Longrightarrow>
     pipeline_step uuid_String uuid_Scan inet_in l (l\<lparr>DB := d\<rparr>)"
| saver_fails:
    "i < length (goroutines l) \<Longrightarrow> goroutines l ! i = SaverLoop c u \<Longrightarrow>
     BulkDatabaseCopy (pg_CopyFrom inet_in f) batch (DB l) = (Some e, d) \<Longrightarrow>
     pipeline_step uuid_String uuid_Scan inet_in l (becomes i (SaverFailed c u) (l\<lparr>DB := d\<rparr>))"
| saver_reports:
    "i < length (goroutines l) \<Longrightarrow> goroutines l ! i = SaverFailed c u \<Longrightarrow>
     ctx_done l c \<longrightarrow> \<not> reached f \<Longrightarrow>
     pipeline_step uuid_String uuid_Scan inet_in l
       (becomes i (SaverReported c u) (l\<lparr>DB := onFailure f u (DB l)\<rparr>))"
| saver_cancels:
    "i < length (goroutines l) \<Longrightarrow> goroutines l ! i = SaverReported c u \<Longrightarrow>
     pipeline_step uuid_String uuid_Scan inet_in l (becomes i Returned (cancel_ctx c l))"
| saver_leaves:
    "i < length (goroutines l) \<Longrightarrow> goroutines l ! i = SaverLoop c u \<Longrightarrow> ctx_done l c \<Longrightarrow>
     pipeline_step uuid_String uuid_Scan inet_in l (becomes i Returned l)"
| listener_leaves:
    "i < length (goroutines l) \<Longrightarrow> goroutines l ! i = Listening c u \<Longrightarrow>
     pipeline_step uuid_String uuid_Scan inet_in l (becomes i Returned l)"

section \<open>Facts\<close>

lemma launch_savers_result:
  "launch_savers newConsumer c u ws l = (r, l') \<Longrightarrow>
   \<exists>k. l' = l\<lparr>goroutines := goroutines l @ replicate k (SaverLoop c u)\<rparr> \<and>
     (case r of None \<Rightarrow> k = length ws | Some e \<Rightarrow> k < length ws \<and> newConsumer (ws ! k) = Some e)"
proof (induction ws arbitrary: l)
  case Nil
  then show ?case by (intro exI [of _ 0]) auto
next
  case (Cons w ws)
  show ?case
  proof (cases "newConsumer w")
    case None
    with Cons.prems have "launch_savers newConsumer c u ws (go (SaverLoop c u) l) = (r, l')" by simp
    from Cons.IH [OF this] obtain k where
      "l' = l\<lparr>goroutines := goroutines l @ SaverLoop c u # replicate k (SaverLoop c u)\<rparr>"
      "case r of None \<Rightarrow> k = length ws | Some e \<Rightarrow> k < length ws \<and> newConsumer (ws ! k) = Some e"
      by (auto simp: go_def)
    then show ?thesis by (intro exI [of _ "Suc k"]) (auto split: option.splits)
  next
    case (Some e)
    then have "r = Some e" "l' = l" using Cons.prems by simp_all
    then show ?thesis using Some by (intro exI [of _ 0]) auto
  qed
qed

lemma start_begin_Inr:
  "start_begin uuid_String env iface n l = (Inr (u, c), l') \<Longrightarrow>
   1 \<le> n \<and> n \<le> 10 \<and> c = Suc (made l) \<and>
   (\<exists>d. StartSession (fresh_id env) (resume_time env) (insert_time env) (resume_fault env) (insert_fault env)
          iface (DB l) = (Inr u, d) \<and>
        l' = l\<lparr>DB := d, made := Suc (made l), Cancels := (Cancels l)(uuid_String u \<mapsto> c)\<rparr>)"
  by (auto simp: start_begin_def Let_def split: if_splits option.splits prod.splits sum.splits)

lemma start_begin_Inl:
  "start_begin uuid_String env iface n l = (Inl e, l') \<Longrightarrow>
   (\<forall>x. e \<noteq> ConsumerError x) \<and>
   (DB l' = DB l \<or> (\<exists>res. StartSession (fresh_id env) (resume_time env) (insert_time env) (resume_fault env)
          (insert_fault env) iface (DB l) = (res, DB l'))) \<and>
   made l \<le> made l' \<and> Cancels l' = Cancels l \<and> ended l' = ended l \<and> goroutines l' = goroutines l"
  by (auto simp: start_begin_def Let_def split: if_splits option.splits prod.splits sum.splits)

lemma session_update_other:
  "session_map (UpdateSession f u s d) v = (if v = u \<and> reached f \<and> 5 \<le> schema d \<and> Valid u
     then map_option (\<lambda>r. r\<lparr>session_status := s\<rparr>) (session_map d v) else session_map d v)"
proof (cases "5 \<le> schema d \<and> reached f \<and> Valid u")
  case True
  then show ?thesis using session_map_update [of d f u s] by simp
next
  case False
  have "capture_sessions (UpdateSession f u s d) = capture_sessions d"
  proof (cases "Valid u")
    case True
    then show ?thesis using False by (auto simp: UpdateSession_def run_stmt_def update_session_stmt_def reached_def
          split: fault.splits)
  next
    case False
    then show ?thesis by (auto simp: UpdateSession_def run_stmt_def update_session_stmt_def uuid_eq_def
          split: fault.splits)
  qed
  then have "session_map (UpdateSession f u s d) = session_map d" by (simp add: session_map_def fun_eq_iff)
  then show ?thesis using False by auto
qed

lemma UpdateSession_schema: "schema (UpdateSession f u s d) = schema d"
  by (auto simp: UpdateSession_def run_stmt_def update_session_stmt_def split: fault.splits)

lemma copy_sessions:
  "BulkDatabaseCopy (pg_CopyFrom inet_in f) rows d = (res, d') \<Longrightarrow>
   session_map d' = session_map d \<and> sessions_ok d' = sessions_ok d \<and> never_ended d' = never_ended d \<and>
   schema d' = schema d"
  using pg_copy_frame [of inet_in f rows d res d']
  by (simp add: session_map_def sessions_ok_def never_ended_def fun_eq_iff)

section \<open>The invariant of the daemon\<close>

fun ctx_of :: "goroutine \<Rightarrow> ctx option" where
  "ctx_of (Starting c u ws) = Some c"
| "ctx_of (SaverLoop c u) = Some c"
| "ctx_of (SaverFailed c u) = Some c"
| "ctx_of (SaverReported c u) = Some c"
| "ctx_of (Listening c u) = Some c"
| "ctx_of _ = None"

definition store_inv :: "db \<Rightarrow> bool" where
  "store_inv d \<longleftrightarrow> sessions_ok d \<and> never_ended d \<and> 5 \<le> schema d"

definition launcher_inv :: "(UUID \<Rightarrow> string) \<Rightarrow> Launcher \<Rightarrow> bool" where
  "launcher_inv uuid_String l \<longleftrightarrow> store_inv (DB l) \<and>
     (\<forall>s c. Cancels l s = Some c \<longrightarrow> 0 < c \<and> c \<le> made l \<and>
        (\<exists>u. s = uuid_String u \<and> Valid u \<and> session_map (DB l) u \<noteq> None)) \<and>
     (\<forall>g \<in> set (goroutines l). \<forall>c. ctx_of g = Some c \<longrightarrow> 0 < c \<and> c \<le> made l)"

definition new_launcher :: "db \<Rightarrow> Launcher" where
  "new_launcher d = \<lparr>DB = d, Cancels = Map.empty, made = 0, ended = {}, goroutines = []\<rparr>"

lemma store_inv_update [simp]: "store_inv d \<Longrightarrow> store_inv (UpdateSession f u st d)"
  using UpdateSession_preserves by (auto simp: store_inv_def UpdateSession_schema)

lemma store_inv_start:
  "StartSession fresh t1 t2 f1 f2 iface d = (res, d') \<Longrightarrow> Valid fresh \<Longrightarrow> store_inv d \<Longrightarrow> store_inv d'"
  using StartSession_preserves [of fresh d t1 t2 f1 f2 iface] StartSession_dom [of fresh t1 t2 f1 f2 iface d res d']
  by (simp add: store_inv_def)

lemma update_keeps_rows: "session_map (UpdateSession f u st d) v = None \<longleftrightarrow> session_map d v = None"
  by (simp add: session_update_other)

text \<open>Each primitive change of the state keeps the invariant.\<close>

definition bounded :: "Launcher \<Rightarrow> goroutine \<Rightarrow> bool" where
  "bounded l g \<longleftrightarrow> (\<forall>c. ctx_of g = Some c \<longrightarrow> 0 < c \<and> c \<le> made l)"

named_theorems inv_intros \<open>changes of the state that keep the launcher's invariant\<close>

lemma inv_goroutine:
  "launcher_inv uuid_String l \<Longrightarrow> i < length (goroutines l) \<Longrightarrow> goroutines l ! i = g \<Longrightarrow> bounded l g"
  by (auto simp: launcher_inv_def bounded_def)

lemma inv_go [inv_intros]:
  "launcher_inv uuid_String l \<Longrightarrow> bounded l g \<Longrightarrow> launcher_inv uuid_String (go g l)"
  by (auto simp: launcher_inv_def bounded_def go_def)

lemma inv_becomes [inv_intros]:
  "launcher_inv uuid_String l \<Longrightarrow> bounded l g \<Longrightarrow> launcher_inv uuid_String (becomes i g l)"
  using set_update_subset_insert [of "goroutines l" i g]
  by (auto simp: launcher_inv_def bounded_def becomes_def)

lemma inv_cancel [inv_intros]: "launcher_inv uuid_String l \<Longrightarrow> launcher_inv uuid_String (cancel_ctx c l)"
  by (simp add: launcher_inv_def cancel_ctx_def)

lemma inv_unregister [inv_intros]: "launcher_inv uuid_String l \<Longrightarrow> launcher_inv uuid_String (unregister s l)"
  by (auto simp: launcher_inv_def cancel_ctx_def unregister_def split: option.split)

lemma inv_DB:
  "launcher_inv uuid_String l \<Longrightarrow> store_inv d \<Longrightarrow> dom (session_map (DB l)) \<subseteq> dom (session_map d) \<Longrightarrow>
   launcher_inv uuid_String (l\<lparr>DB := d\<rparr>)"
  unfolding launcher_inv_def by (auto simp: dom_def) blast

lemma inv_update [inv_intros]:
  "launcher_inv uuid_String l \<Longrightarrow> launcher_inv uuid_String (l\<lparr>DB := UpdateSession f u st (DB l)\<rparr>)"
  by (rule inv_DB) (auto simp: launcher_inv_def dom_def update_keeps_rows)

lemma inv_copy [inv_intros]:
  "launcher_inv uuid_String l \<Longrightarrow> BulkDatabaseCopy (pg_CopyFrom inet_in f) rows (DB l) = (res, d) \<Longrightarrow>
   launcher_inv uuid_String (l\<lparr>DB := d\<rparr>)"
  by (rule inv_DB) (auto simp: launcher_inv_def store_inv_def dest: copy_sessions)

lemma made_simps [simp]:
  "made (becomes i g l) = made l" "made (cancel_ctx c l) = made l" "made (go g l) = made l"
  "made (unregister s l) = made l"
  by (simp_all add: becomes_def cancel_ctx_def go_def unregister_def split: option.split)

lemma bounded_simps [simp]:
  "bounded l Returned" "bounded l (Stopping u)"
  "bounded l (Starting c u ws) \<longleftrightarrow> 0 < c \<and> c \<le> made l"
  "bounded l (SaverLoop c u) \<longleftrightarrow> 0 < c \<and> c \<le> made l"
  "bounded l (SaverFailed c u) \<longleftrightarrow> 0 < c \<and> c \<le> made l"
  "bounded l (SaverReported c u) \<longleftrightarrow> 0 < c \<and> c \<le> made l"
  "bounded l (Listening c u) \<longleftrightarrow> 0 < c \<and> c \<le> made l"
  by (simp_all add: bounded_def)

lemma inv_start_begin:
  assumes "start_begin uuid_String env iface n l = (r, l')" "Valid (fresh_id env)" "launcher_inv uuid_String l"
  shows "launcher_inv uuid_String l' \<and> (\<forall>u c ws. r = Inr (u, c) \<longrightarrow> bounded l' (Starting c u ws))"
proof (cases r)
  case (Inl e)
  note fails = start_begin_Inl [OF assms(1) [unfolded Inl]]
  have store: "store_inv (DB l)" using assms(3) by (simp add: launcher_inv_def)
  have "store_inv (DB l') \<and> dom (session_map (DB l)) \<subseteq> dom (session_map (DB l'))"
  proof (cases "DB l' = DB l")
    case False
    then obtain res where "StartSession (fresh_id env) (resume_time env) (insert_time env) (resume_fault env)
        (insert_fault env) iface (DB l) = (res, DB l')" using fails by blast
    then show ?thesis using StartSession_dom store_inv_start [OF _ _ store] assms(2) by blast
  qed (use store in simp)
  from inv_DB [OF assms(3) conjunct1 [OF this] conjunct2 [OF this]] have "launcher_inv uuid_String (l\<lparr>DB := DB l'\<rparr>)" .
  then have "launcher_inv uuid_String l'"
    using fails by (simp add: launcher_inv_def) (meson le_trans)
  then show ?thesis by (simp add: Inl)
next
  case (Inr uc)
  obtain u c where uc: "uc = (u, c)" by fastforce
  from start_begin_Inr [OF assms(1) [unfolded Inr uc]] obtain d where d:
    "StartSession (fresh_id env) (resume_time env) (insert_time env) (resume_fault env) (insert_fault env)
       iface (DB l) = (Inr u, d)" "c = Suc (made l)"
    "l' = l\<lparr>DB := d, made := Suc (made l), Cancels := (Cancels l)(uuid_String u \<mapsto> c)\<rparr>" by blast
  have inv: "store_inv d" "dom (session_map (DB l)) \<subseteq> dom (session_map d)"
    using store_inv_start [OF d(1) assms(2)] StartSession_dom [OF d(1) assms(2)] assms(3)
    by (auto simp: launcher_inv_def)
  have row: "Valid u" "session_map d u \<noteq> None"
    using StartSession_result [OF d(1) assms(2)] assms(3) by (auto simp: launcher_inv_def store_inv_def)
  have "launcher_inv uuid_String (l\<lparr>DB := d\<rparr>)" using inv_DB [OF assms(3) inv] .
  then have "launcher_inv uuid_String l'" using row by (simp add: launcher_inv_def d(2,3)) (auto intro: le_SucI)
  then show ?thesis by (simp add: Inr uc bounded_def d(2,3))
qed

lemma launcher_step_inv:
  assumes "pipeline_step uuid_String uuid_Scan inet_in l l'" "launcher_inv uuid_String l"
  shows "launcher_inv uuid_String l'"
  using assms
proof (induction rule: pipeline_step.induct)
  case (start_ok env iface n l u c l')
  then show ?case using inv_start_begin by (metis inv_go)
next
  case (start_fails env iface n l e l')
  then show ?case using inv_start_begin by blast
next
  case (start_done i l c u f)
  then show ?case
    using inv_goroutine [OF start_done.prems start_done.hyps(1,2)]
    by (simp add: start_end_def Let_def inv_intros)
next
  case (stop_done i l u f)
  then show ?case by (simp add: stop_end_def inv_intros)
next
  case (saver_reports i l c u f)
  then show ?case
    using inv_goroutine [OF saver_reports.prems saver_reports.hyps(1,2)] by (simp add: onFailure_def inv_intros)
next
  case (start_saver i l c u w ws)
  then show ?case
    using inv_goroutine [OF start_saver.prems start_saver.hyps(1,2)] by (simp add: inv_intros)
next
  case (saver_fails i l c u f batch e d)
  then show ?case
    using inv_goroutine [OF saver_fails.prems saver_fails.hyps(1,2)] by (auto intro!: inv_intros intro: inv_copy)
qed (auto intro!: inv_intros intro: inv_copy)

section \<open>What a stop settles\<close>

text \<open>
  Once a session is finished and nobody who is still running can write another status, it stays
  finished: its savers' context is cancelled, and a start never takes a finished session over.
\<close>

definition settled :: "UUID \<Rightarrow> ctx set \<Rightarrow> goroutine \<Rightarrow> bool" where
  "settled u dead g \<longleftrightarrow>
     (case g of
        Starting c v ws \<Rightarrow> v \<noteq> u
      | SaverLoop c v \<Rightarrow> v = u \<longrightarrow> 0 \<in> dead \<or> c \<in> dead
      | SaverFailed c v \<Rightarrow> v = u \<longrightarrow> 0 \<in> dead \<or> c \<in> dead
      | _ \<Rightarrow> True)"

definition finished :: "UUID \<Rightarrow> Launcher \<Rightarrow> bool" where
  "finished u l \<longleftrightarrow> store_inv (DB l) \<and>
     (\<exists>r. session_map (DB l) u = Some r \<and> session_status r = StatusFinish) \<and>
     (\<forall>g \<in> set (goroutines l). settled u (ended l) g)"

lemma settled_simps [simp]:
  "settled u dead Returned" "settled u dead (Stopping v)" "settled u dead (SaverReported c v)"
  "settled u dead (Listening c v)"
  "settled u dead (Starting c v ws) \<longleftrightarrow> v \<noteq> u"
  "settled u dead (SaverLoop c v) \<longleftrightarrow> (v = u \<longrightarrow> 0 \<in> dead \<or> c \<in> dead)"
  "settled u dead (SaverFailed c v) \<longleftrightarrow> (v = u \<longrightarrow> 0 \<in> dead \<or> c \<in> dead)"
  by (simp_all add: settled_def)

lemma settled_mono: "settled u dead g \<Longrightarrow> dead \<subseteq> dead' \<Longrightarrow> settled u dead' g"
  by (auto simp: settled_def split: goroutine.splits)

named_theorems fin_intros \<open>changes of the state that keep a session finished\<close>




lemma fin_cancel [fin_intros]: "finished u l \<Longrightarrow> finished u (cancel_ctx c l)"
  by (auto simp: finished_def cancel_ctx_def intro: settled_mono)

lemma fin_unregister [fin_intros]: "finished u l \<Longrightarrow> finished u (unregister s l)"
  by (auto simp: finished_def cancel_ctx_def unregister_def intro: settled_mono split: option.split)



lemma ended_simps [simp]:
  "ended (becomes i g l) = ended l" "ended (go g l) = ended l" "ended (cancel_ctx c l) = insert c (ended l)"
  "ended l \<subseteq> ended (unregister s l)"
  by (auto simp: becomes_def go_def cancel_ctx_def unregister_def split: option.split)





lemma launcher_steps_inv:
  "(pipeline_step uuid_String uuid_Scan inet_in)\<^sup>*\<^sup>* l l' \<Longrightarrow> launcher_inv uuid_String l \<Longrightarrow>
   launcher_inv uuid_String l'"
  by (induction rule: rtranclp_induct) (blast intro: launcher_step_inv)+

lemma start_end_row:
  assumes "session_map (DB l) u = Some r" "5 \<le> schema (DB l)" "Valid u"
  shows "session_map (DB (start_end f c u l)) u =
    Some (if reached f then r\<lparr>session_status := StatusRunning\<rparr> else r)"
  using assms by (simp add: start_end_def go_def session_update_other)

text \<open>
  The savers of the step relation are the code's: a run of \<open>PacketSaverWorker\<close> that nobody
  interrupts is a run of steps of its goroutine.
\<close>

lemma becomes_twice: "becomes i g (becomes i h l) = becomes i g l"
  by (simp add: becomes_def)

lemma DB_becomes: "(becomes i g l)\<lparr>DB := d\<rparr> = becomes i g (l\<lparr>DB := d\<rparr>)"
  by (simp add: becomes_def)

lemma aborted_saver_steps:
  assumes "i < length (goroutines l)" "goroutines l ! i = SaverLoop c u" "\<not> ctx_done l c"
    and "BulkDatabaseCopy (pg_CopyFrom inet_in f) batch (DB l) = (Some e, d)"
  shows "(pipeline_step uuid_String uuid_Scan inet_in)\<^sup>*\<^sup>* l
    (becomes i Returned (cancel_ctx c (l\<lparr>DB := onFailure f' u d\<rparr>)))"
proof -
  let ?step = "pipeline_step uuid_String uuid_Scan inet_in"
  let ?l1 = "becomes i (SaverFailed c u) (l\<lparr>DB := d\<rparr>)"
  let ?l2 = "becomes i (SaverReported c u) (?l1\<lparr>DB := onFailure f' u (DB ?l1)\<rparr>)"
  have "?step l ?l1" by (rule pipeline_step.saver_fails [OF assms(1,2,4)])
  moreover have "?step ?l1 ?l2"
    by (rule pipeline_step.saver_reports) (use assms(1,3) in \<open>auto simp: becomes_def ctx_done_def\<close>)
  moreover have "?step ?l2 (becomes i Returned (cancel_ctx c ?l2))"
    by (rule pipeline_step.saver_cancels) (use assms(1) in \<open>auto simp: becomes_def\<close>)
  moreover have "becomes i Returned (cancel_ctx c ?l2) = becomes i Returned (cancel_ctx c (l\<lparr>DB := onFailure f' u d\<rparr>))"
    by (simp add: becomes_def cancel_ctx_def)
  ultimately show ?thesis by (metis r_into_rtranclp rtranclp_trans)
qed

lemma live_saver_steps:
  "LivePacketSaverWorker unmarshal (pg_CopyFrom inet_in) (\<lambda>f t. onFailure f u) es w (DB l) = (x, w', sl, d') \<Longrightarrow>
   i < length (goroutines l) \<Longrightarrow> goroutines l ! i = SaverLoop c u \<Longrightarrow> \<not> ctx_done l c \<Longrightarrow>
   (pipeline_step uuid_String uuid_Scan inet_in)\<^sup>*\<^sup>* l
     (if x = Aborted then becomes i Returned (cancel_ctx c (l\<lparr>DB := d'\<rparr>)) else l\<lparr>DB := d'\<rparr>)"
proof (induction es arbitrary: w l sl)
  case (Cons ev es)
  show ?case
  proof (cases ev)
    case (Message m env)
    show ?thesis
    proof (cases "unmarshal m")
      case (Some batch)
      obtain r d1 where b: "BulkDatabaseCopy (pg_CopyFrom inet_in (copy_fault env)) batch (DB l) = (r, d1)"
        by fastforce
      show ?thesis
      proof (cases r)
        case (Some e)
        then have "x = Aborted" "d' = onFailure (status_fault env) u d1"
          using Cons.prems(1) b \<open>unmarshal m = Some batch\<close> by (auto simp: Message)
        then show ?thesis using aborted_saver_steps [OF Cons.prems(2-4) b [unfolded Some]] by simp
      next
        case None
        let ?l1 = "l\<lparr>DB := d1\<rparr>"
        have first: "pipeline_step uuid_String uuid_Scan inet_in l ?l1"
          by (rule pipeline_step.saver_writes [OF Cons.prems(2,3) b [unfolded None]])
        have l1: "i < length (goroutines ?l1)" "goroutines ?l1 ! i = SaverLoop c u" "\<not> ctx_done ?l1 c"
          using Cons.prems(2-4) by (simp_all add: ctx_done_def)
        obtain bo sleeps where t: "throttle (write_time env) (currentBackoff w) = (bo, sleeps)" by fastforce
        show ?thesis
        proof (cases "sleeps \<and> sleep_interrupted env")
          case True
          then have "x = Stopped" "d' = d1"
            using Cons.prems(1) b None t \<open>unmarshal m = Some batch\<close> by (auto simp: Message)
          then show ?thesis using first by auto
        next
          case False
          then obtain w1 sl1 where
            "LivePacketSaverWorker unmarshal (pg_CopyFrom inet_in) (\<lambda>f t. onFailure f u) es w1 (DB ?l1) =
               (x, w', sl1, d')"
            using Cons.prems(1) b None t \<open>unmarshal m = Some batch\<close>
            by (auto simp: Message Let_def split: prod.splits)
          from Cons.IH [OF this l1] first show ?thesis by (auto intro: converse_rtranclp_into_rtranclp)
        qed
      qed
    qed (use Cons in \<open>auto simp: Message\<close>)
  qed (use Cons in auto)
qed auto

section \<open>Properties\<close>

text \<open>
  C18: What a start leaves behind. Without an error there are as many savers as asked for, at
  least 1 and at most 10, one listener, all on a new context that is registered under the text of
  the session's identifier, and the session of that interface is 'running', or still 'starting' if
  the last update did not get through. When a Kafka consumer cannot be made, the savers that were
  already started keep running and the session stays registered and 'starting', without a
  listener. Every other error starts and registers nothing. No start cancels a context.
\<close>

theorem start_pipeline_result:
  assumes "store_inv (DB l)" "Valid (fresh_id env)" "StartPipeline uuid_String env iface n l = ((s, err), l')"
  shows "ended l' = ended l \<and>
    (case err of
       None \<Rightarrow> 1 \<le> n \<and> n \<le> 10 \<and>
         (\<exists>u r. s = uuid_String u \<and> Cancels l' = (Cancels l)(s \<mapsto> Suc (made l)) \<and>
            goroutines l' = goroutines l @ replicate (nat n) (SaverLoop (Suc (made l)) u) @
              [Listening (Suc (made l)) u] \<and>
            session_map (DB l') u = Some r \<and> session_iface r = iface \<and>
            session_status r = (if reached (running_fault env) then StatusRunning else StatusStart))
     | Some (ConsumerError e) \<Rightarrow>
         (\<exists>u r k. s = uuid_String u \<and> Cancels l' = (Cancels l)(s \<mapsto> Suc (made l)) \<and>
            k < nat n \<and> consumer_error env (int k + 1) = Some e \<and>
            goroutines l' = goroutines l @ replicate k (SaverLoop (Suc (made l)) u) \<and>
            session_map (DB l') u = Some r \<and> session_iface r = iface \<and> session_status r = StatusStart)
     | Some _ \<Rightarrow> s = [] \<and> Cancels l' = Cancels l \<and> goroutines l' = goroutines l)"
proof -
  obtain r1 l1 where begin1: "start_begin uuid_String env iface n l = (r1, l1)" by fastforce
  show ?thesis
  proof (cases r1)
    case (Inl e)
    then have "s = []" "err = Some e" "l' = l1" using assms(3) begin1 by (simp_all add: StartPipeline_def)
    then show ?thesis using start_begin_Inl [OF begin1 [unfolded Inl]] by (auto split: start_error.split)
  next
    case (Inr uc)
    obtain u c where uc: "uc = (u, c)" by fastforce
    from start_begin_Inr [OF begin1 [unfolded Inr uc]] obtain d where n: "1 \<le> n" "n \<le> 10"
      and c: "c = Suc (made l)"
      and d: "StartSession (fresh_id env) (resume_time env) (insert_time env) (resume_fault env)
          (insert_fault env) iface (DB l) = (Inr u, d)"
      and l1: "l1 = l\<lparr>DB := d, made := Suc (made l), Cancels := (Cancels l)(uuid_String u \<mapsto> c)\<rparr>" by blast
    obtain r where row: "session_map d u = Some r" "session_status r = StatusStart" "session_iface r = iface"
      and u: "Valid u" and sch: "5 \<le> schema d"
      using StartSession_result [OF d assms(2)] store_inv_start [OF d assms(2,1)] assms(1)
      by (auto simp: store_inv_def)
    obtain r2 l2 where launch: "launch_savers (consumer_error env) c u [1..n] l1 = (r2, l2)" by fastforce
    from launch_savers_result [OF launch] obtain k where
      l2: "l2 = l1\<lparr>goroutines := goroutines l1 @ replicate k (SaverLoop c u)\<rparr>"
      and k: "case r2 of None \<Rightarrow> k = length [1..n]
                | Some e \<Rightarrow> k < length [1..n] \<and> consumer_error env ([1..n] ! k) = Some e" by blast
    show ?thesis
    proof (cases r2)
      case None
      have fin: "l' = start_end (running_fault env) c u l2" "s = uuid_String u" "err = None"
        using assms(3) begin1 launch by (simp_all add: StartPipeline_def Inr uc None)
      have "session_map (DB l2) u = Some r" "5 \<le> schema (DB l2)" using row sch by (simp_all add: l2 l1)
      from start_end_row [OF this u, of "running_fault env" c] show ?thesis
        using row k n by (auto simp: fin None) (auto simp: start_end_def go_def l1 l2 c)
    next
      case (Some e)
      have fin: "l' = l2" "s = uuid_String u" "err = Some (ConsumerError e)"
        using assms(3) begin1 launch by (simp_all add: StartPipeline_def Inr uc Some)
      have "k < nat n" using k by (simp add: Some)
      then have "[1..n] ! k = int k + 1" by (subst nth_upto) auto
      then show ?thesis using row k by (auto simp: fin Some l2 l1 c)
    qed
  qed
qed

text \<open>
  C19: In every state that the daemon can reach, however starts, stops, savers and failures
  interleave: the identifiers of the sessions are distinct, no session was ever given an end time
  or a packet count (the two columns are listed but nothing writes them), every registered text is
  the identifier of a session of the table with a context made for it, and no goroutine of a
  pipeline runs on the daemon's own context or on one that was never made.
\<close>

theorem launcher_reachable_states:
  assumes "store_inv d" "(pipeline_step uuid_String uuid_Scan inet_in)\<^sup>*\<^sup>* (new_launcher d) l"
  shows "distinct (map session_id (capture_sessions (DB l))) \<and>
    list_all (\<lambda>r. ended_at r = None \<and> packets_saved r = 0) (capture_sessions (DB l)) \<and>
    (\<forall>s c. Cancels l s = Some c \<longrightarrow> 0 < c \<and> c \<le> made l \<and>
       (\<exists>u. s = uuid_String u \<and> session_map (DB l) u \<noteq> None)) \<and>
    (\<forall>g \<in> set (goroutines l). \<forall>c. ctx_of g = Some c \<longrightarrow> 0 < c \<and> c \<le> made l)"
proof -
  have "launcher_inv uuid_String (new_launcher d)"
    using assms(1) by (simp add: launcher_inv_def new_launcher_def)
  from launcher_steps_inv [OF assms(2) this] show ?thesis
    unfolding launcher_inv_def store_inv_def sessions_ok_def never_ended_def by blast
qed


section \<open>Sample states\<close>

definition raw_String :: "UUID \<Rightarrow> string" where
  "raw_String u = map (\<lambda>b. char_of (unat b)) (UBytes u)"

definition raw_Scan :: "string \<Rightarrow> string + UUID" where
  "raw_Scan s = Inr \<lparr>UBytes = map (\<lambda>c. of_nat (of_char c)) s, Valid = True\<rparr>"

definition quick_start :: start_env where
  "quick_start = \<lparr>producer_error = None, listener_error = None, fresh_id = other_id, resume_time = 0,
     insert_time = 0, resume_fault = NoFault, insert_fault = NoFault, consumer_error = (\<lambda>_. None),
     running_fault = NoFault\<rparr>"

lemma stopped_db_inv [simp]: "store_inv stopped_db"
  by (simp add: store_inv_def stopped_db_def empty_db_def sessions_ok_def never_ended_def sample_job_def)

lemma start_pipeline_result_witness:
  "\<exists>u. goroutines (snd (StartPipeline raw_String quick_start ''eth0'' 2 (new_launcher stopped_db))) =
    [SaverLoop 1 u, SaverLoop 1 u, Listening 1 u]"
proof -
  obtain s err l' where run:
    "StartPipeline raw_String quick_start ''eth0'' 2 (new_launcher stopped_db) = ((s, err), l')"
    by (metis prod.collapse)
  then have "err = None"
    by (auto simp: StartPipeline_def start_begin_def quick_start_def new_launcher_def stopped_db_def StartSession_def
        run_stmt_def resume_stmt_def insert_session_stmt_def empty_db_def resumable_def statuses Let_def
        sample_job_def other_id_def uuid_eq_def upto.simps split: prod.splits)
  have "store_inv (DB (new_launcher stopped_db))" by (simp add: new_launcher_def)
  from start_pipeline_result [OF this _ run] \<open>err = None\<close> obtain u where
    "goroutines l' = replicate (nat 2) (SaverLoop (Suc 0) u) @ [Listening (Suc 0) u]"
    by (auto simp: quick_start_def other_id_def new_launcher_def)
  then show ?thesis unfolding run by (simp add: numeral_2_eq_2)
qed

lemma launcher_reachable_states_witness:
  "distinct (map session_id (capture_sessions (DB (cancel_ctx 0 (new_launcher stopped_db)))))"
  using launcher_reachable_states [OF stopped_db_inv r_into_rtranclp,
      OF pipeline_step.daemon_cancelled [of raw_String raw_Scan sample_inet_in]] by blast



end
