(* ===== verification/NetAddr.thy ===== *)
theory NetAddr
  imports Packet GoTime
begin

text \<open>
  Reading an address, as \<open>netip.ParseAddr\<close> of Go's standard library does it, and that it gives back
  every address whose text \<open>Addr_String\<close> wrote: dotted fields, the longest run of zero groups
  shortened to two colons, embedded IPv4 addresses and zones. Only whether there is an error is
  kept, not its text.
\<close>

section \<open>The code\<close>

definition v4_field :: "string \<Rightarrow> 8 word option" where
  "v4_field s =
     (if s \<noteq> [] \<and> list_all is_digit s \<and> (hd s = CHR ''0'' \<longrightarrow> length s = 1)
      then (case Atoi s of Inr n \<Rightarrow> if n \<le> 255 then Some (word_of_int n) else None | Inl _ \<Rightarrow> None)
      else None)"

definition parse_v4 :: "string \<Rightarrow> 8 word list option" where
  "parse_v4 s = (let fs = Split (CHR ''.'') s in if length fs = 4 then those (map v4_field fs) else None)"

definition hex_val :: "char \<Rightarrow> nat option" where
  "hex_val c =
     (let n = of_char c :: nat in
      if 48 \<le> n \<and> n \<le> 57 then Some (n - 48)
      else if 97 \<le> n \<and> n \<le> 102 then Some (n - 87)
      else if 65 \<le> n \<and> n \<le> 70 then Some (n - 55)
      else None)"

definition is_hex :: "char \<Rightarrow> bool" where
  "is_hex c \<longleftrightarrow> hex_val c \<noteq> None"

definition hex_value :: "string \<Rightarrow> nat" where
  "hex_value = foldl (\<lambda>n c. n * 16 + the (hex_val c)) 0"

definition group_bytes :: "nat \<Rightarrow> 8 word list" where
  "group_bytes n = [word_of_nat (n div 256), word_of_nat n]"

text \<open>
  The loop over the groups: the bytes read so far, the position of the two colons and the rest of
  the text. It ends when sixteen bytes are read.
\<close>

function v6_loop :: "8 word list \<Rightarrow> nat option \<Rightarrow> string \<Rightarrow> (8 word list \<times> nat option \<times> string) option"
where
  "v6_loop ip ellipsis s =
     (if 16 \<le> length ip then Some (ip, ellipsis, s)
      else
        (let ds = takeWhile is_hex s; rest = dropWhile is_hex s; ip' = ip @ group_bytes (hex_value ds) in
         if ds = [] \<or> 4 < length ds then None
         else if rest = [] then Some (ip', ellipsis, [])
         else if hd rest = CHR ''.'' then
           (if (ellipsis = None \<and> length ip \<noteq> 12) \<or> 12 < length ip then None
            else map_option (\<lambda>v4. (ip @ v4, ellipsis, [])) (parse_v4 s))
         else if hd rest \<noteq> CHR '':'' \<or> tl rest = [] then None
         else if hd (tl rest) = CHR '':'' then
           (if ellipsis \<noteq> None then None
            else if tl (tl rest) = [] then Some (ip', Some (length ip'), [])
            else v6_loop ip' (Some (length ip')) (tl (tl rest)))
         else v6_loop ip' ellipsis (tl rest)))"
  by pat_completeness auto
termination
  by (relation "measure (\<lambda>(ip, _, _). 16 - length ip)") (auto simp: group_bytes_def)

declare v6_loop.simps [simp del]

definition v6_expand :: "8 word list \<times> nat option \<times> string \<Rightarrow> 8 word list option" where
  "v6_expand r =
     (case r of (ip, ellipsis, s) \<Rightarrow>
        if s \<noteq> [] then None
        else
          (case ellipsis of
             None \<Rightarrow> if length ip < 16 then None else Some ip
           | Some p \<Rightarrow>
               if length ip < 16 then Some (take p ip @ replicate (16 - length ip) 0 @ drop p ip) else None))"

definition parse_v6_bytes :: "string \<Rightarrow> 8 word list option" where
  "parse_v6_bytes s =
     (if take 2 s = ''::'' then
        (if drop 2 s = [] then Some (replicate 16 0)
         else Option.bind (v6_loop [] (Some 0) (drop 2 s)) v6_expand)
      else Option.bind (v6_loop [] None s) v6_expand)"

definition parse_v6 :: "string \<Rightarrow> Addr option" where
  "parse_v6 s =
     (let t = takeWhile (\<lambda>c. c \<noteq> CHR ''%'') s; zone = drop (Suc (length t)) s in
      if length t = length s then map_option Addr16 (parse_v6_bytes t)
      else if zone = [] then None
      else map_option (\<lambda>bs. AddrZone bs zone) (parse_v6_bytes t))"

definition is_mark :: "char \<Rightarrow> bool" where
  "is_mark c \<longleftrightarrow> c = CHR ''.'' \<or> c = CHR '':'' \<or> c = CHR ''%''"

definition ParseAddr :: "string \<Rightarrow> Addr option" where
  "ParseAddr s =
     (case find is_mark s of
        None \<Rightarrow> None
      | Some c \<Rightarrow>
          if c = CHR ''.'' then map_option Addr4 (parse_v4 s)
          else if c = CHR '':'' then parse_v6 s
          else None)"

section \<open>Dotted fields\<close>

lemma digits_hd_0: "hd (digits n) = CHR ''0'' \<Longrightarrow> n = 0"
proof (induction n rule: digits.induct)
  case (1 n)
  show ?case
  proof (cases "n < 10")
    case True
    moreover have "digit_val (CHR ''0'') = Some 0" by (simp add: digit_val_def)
    moreover have "digit_char n = CHR ''0''" using 1 True by (simp add: digits.simps [of n])
    ultimately show ?thesis using digit_val_digit_char [of n] by simp
  next
    case False
    then show ?thesis using 1 by (simp add: digits.simps [of n] hd_append)
  qed
qed

lemma v4_field_digits: "v4_field (digits (unat (b :: 8 word))) = Some b"
proof -
  have "unat b < 256" using unsigned_less [of b] by simp
  then have less: "unat b < 256" "uint b < 256" using of_nat_less_iff [of "unat b" 256, where 'a = int] by simp_all
  have "list_all is_digit (digits (unat b))" by (simp add: list_all_iff digits_is_digit)
  moreover have "length (digits (unat b)) = 1" if "hd (digits (unat b)) = CHR ''0''"
    using digits_hd_0 [OF that] by (simp add: digits.simps)
  ultimately show ?thesis using less by (simp add: v4_field_def Atoi_digits)
qed

lemma dotted_no_dot: "s \<in> set (map (\<lambda>b. digits (unat b)) bs) \<Longrightarrow> CHR ''.'' \<notin> set s"
  using digits_is_digit by (fastforce simp: is_digit_def digit_val_def)

lemma parse_v4_dotted: "length bs = 4 \<Longrightarrow> parse_v4 (dotted bs) = Some bs"
proof -
  assume len: "length bs = 4"
  have "Split (CHR ''.'') (dotted bs) = map (\<lambda>b. digits (unat b)) bs"
    unfolding dotted_def using len dotted_no_dot by (intro Split_Join) auto
  moreover have "those (map v4_field (map (\<lambda>b. digits (unat b)) bs)) = Some bs"
    by (induction bs) (simp_all add: v4_field_digits)
  ultimately show ?thesis using len by (simp add: parse_v4_def)
qed

section \<open>Groups\<close>

definition hex_char :: "nat \<Rightarrow> char" where
  "hex_char d = (if d < 10 then digit_char d else char_of (87 + d))"

lemma hex_digits_eq: "hex_digits n = (if n < 16 then [hex_char n] else hex_digits (n div 16) @ [hex_char (n mod 16)])"
  by (subst hex_digits.simps) (simp add: hex_char_def Let_def)

lemma hex_val_char: "d < 16 \<Longrightarrow> hex_val (hex_char d) = Some d"
  by (auto simp: hex_val_def hex_char_def digit_char_def Let_def)

lemma is_hex_char: "d < 16 \<Longrightarrow> is_hex (hex_char d)"
  by (simp add: is_hex_def hex_val_char)

lemma hex_digits_hex: "list_all is_hex (hex_digits n)"
proof (induction n rule: hex_digits.induct)
  case (1 n)
  then show ?case by (subst hex_digits_eq) (auto simp: is_hex_char)
qed

lemma hex_digits_value: "hex_value (hex_digits n) = n"
proof (induction n rule: hex_digits.induct)
  case (1 n)
  then show ?case by (subst hex_digits_eq) (auto simp: hex_value_def hex_val_char Let_def)
qed

lemma hex_digits_length: "n < 16 ^ Suc k \<Longrightarrow> length (hex_digits n) \<le> Suc k"
proof (induction k arbitrary: n)
  case 0
  then show ?case by (subst hex_digits_eq) simp
next
  case (Suc k)
  have "n div 16 < 16 ^ Suc k" using Suc.prems by (simp add: div_less_iff_less_mult ac_simps)
  then show ?case using Suc.IH by (subst hex_digits_eq) simp
qed

lemma hex_digits_not_Nil [simp]: "hex_digits n \<noteq> []"
  by (subst hex_digits_eq) simp

lemma hex_digits_group: "n < 65536 \<Longrightarrow> length (hex_digits n) \<le> 4"
  using hex_digits_length [of n 3] by simp

lemma scan_hex:
  assumes "rest = [] \<or> \<not> is_hex (hd rest)"
  shows "takeWhile is_hex (hex_digits n @ rest) = hex_digits n \<and> dropWhile is_hex (hex_digits n @ rest) = rest"
  using assms hex_digits_hex [of n]
  by (cases rest) (auto simp: list_all_iff takeWhile_append2 dropWhile_append2)

lemma is_hex_colon [simp]: "\<not> is_hex (CHR '':'')" "\<not> is_hex (CHR ''.'')"
  by (simp_all add: is_hex_def hex_val_def)

definition groups_bytes :: "nat list \<Rightarrow> 8 word list" where
  "groups_bytes gs = concat (map group_bytes gs)"

lemma groups_bytes_length: "length (groups_bytes gs) = 2 * length gs"
  by (induction gs) (simp_all add: groups_bytes_def group_bytes_def)

text \<open>One turn of the loop on a group that the writer wrote.\<close>

lemma v6_loop_group:
  assumes "g < 65536" "length ip < 16" "rest = [] \<or> hd rest = CHR '':''"
  shows "v6_loop ip e (hex_digits g @ rest) =
    (let ip' = ip @ group_bytes g in
     if rest = [] then Some (ip', e, [])
     else if tl rest = [] then None
     else if hd (tl rest) = CHR '':'' then
       (if e \<noteq> None then None
        else if tl (tl rest) = [] then Some (ip', Some (length ip'), [])
        else v6_loop ip' (Some (length ip')) (tl (tl rest)))
     else v6_loop ip' e (tl rest))"
proof -
  have "takeWhile is_hex (hex_digits g @ rest) = hex_digits g" "dropWhile is_hex (hex_digits g @ rest) = rest"
    using scan_hex [of rest g] assms(3) by auto
  then show ?thesis
    using assms hex_digits_group [OF assms(1)]
    by (subst v6_loop.simps) (auto simp: Let_def hex_digits_value)
qed

lemma groups_bytes_Cons: "groups_bytes (g # gs) = group_bytes g @ groups_bytes gs"
  by (simp add: groups_bytes_def)

lemma group_bytes_length [simp]: "length (group_bytes g) = 2"
  by (simp add: group_bytes_def)

lemma Join_hex_hd:
  assumes "gs \<noteq> []"
  shows "Join '':'' (map hex_digits gs) \<noteq> []" "hd (Join '':'' (map hex_digits gs) @ t) \<noteq> CHR '':''"
proof -
  obtain g hs where gs: "gs = g # hs" using assms by (cases gs) auto
  obtain r where r: "Join '':'' (map hex_digits gs) = hex_digits g @ r" by (cases hs) (auto simp: gs)
  have "hd (hex_digits g) \<noteq> CHR '':''" using hex_digits_hex [of g] by (cases "hex_digits g") auto
  then show "Join '':'' (map hex_digits gs) \<noteq> []" "hd (Join '':'' (map hex_digits gs) @ t) \<noteq> CHR '':''"
    by (simp_all add: r hd_append)
qed

lemma v6_loop_end:
  assumes "gs \<noteq> []" "\<forall>g \<in> set gs. g < 65536" "length ip + 2 * length gs \<le> 16"
  shows "v6_loop ip e (Join '':'' (map hex_digits gs)) = Some (ip @ groups_bytes gs, e, [])"
  using assms
proof (induction gs arbitrary: ip)
  case (Cons g gs)
  show ?case
  proof (cases "gs = []")
    case True
    then show ?thesis using Cons.prems v6_loop_group [of g ip "[]" e] by (simp add: groups_bytes_def Let_def)
  next
    case False
    note hd = Join_hex_hd(1) [OF False] Join_hex_hd(2) [OF False, of "[]"]
    have "v6_loop ip e (Join '':'' (map hex_digits (g # gs)))
        = v6_loop (ip @ group_bytes g) e (Join '':'' (map hex_digits gs))"
      using False Cons.prems v6_loop_group [of g ip "'':'' @ Join '':'' (map hex_digits gs)" e] hd
      by (simp add: Join_Cons Let_def)
    also have "\<dots> = Some ((ip @ group_bytes g) @ groups_bytes gs, e, [])"
      using False Cons.prems by (intro Cons.IH) auto
    finally show ?thesis by (simp add: groups_bytes_Cons)
  qed
qed simp

lemma v6_loop_colons:
  assumes "gs \<noteq> []" "\<forall>g \<in> set gs. g < 65536" "length ip + 2 * length gs < 16"
  shows "v6_loop ip None (Join '':'' (map hex_digits gs) @ ''::'' @ t) =
    (let ip' = ip @ groups_bytes gs in
     if t = [] then Some (ip', Some (length ip'), []) else v6_loop ip' (Some (length ip')) t)"
  using assms
proof (induction gs arbitrary: ip)
  case (Cons g gs)
  show ?case
  proof (cases "gs = []")
    case True
    then show ?thesis using Cons.prems v6_loop_group [of g ip "''::'' @ t" None]
      by (simp add: groups_bytes_def Let_def)
  next
    case False
    note hd = Join_hex_hd [OF False]
    have "v6_loop ip None (Join '':'' (map hex_digits (g # gs)) @ ''::'' @ t)
        = v6_loop (ip @ group_bytes g) None (Join '':'' (map hex_digits gs) @ ''::'' @ t)"
      using False Cons.prems v6_loop_group [of g ip "'':'' @ Join '':'' (map hex_digits gs) @ ''::'' @ t" None]
        hd(1) hd(2) [of "''::'' @ t"]
      by (simp add: Join_Cons Let_def)
    also have "\<dots> = (let ip' = (ip @ group_bytes g) @ groups_bytes gs in
        if t = [] then Some (ip', Some (length ip'), []) else v6_loop ip' (Some (length ip')) t)"
      using False Cons.prems by (intro Cons.IH) auto
    finally show ?thesis by (simp add: groups_bytes_Cons)
  qed
qed simp

section \<open>Addresses\<close>

lemma u16_groups_less: "g \<in> set (u16_groups bs) \<Longrightarrow> g < 65536"
proof (induction bs rule: u16_groups.induct)
  case (1 a b bs)
  have "unat a < 256" "unat b < 256" using unsigned_less [of a] unsigned_less [of b] by simp_all
  then show ?case using 1 by auto
qed simp_all

lemma u16_groups_length: "length (u16_groups bs) = length bs div 2"
  by (induction bs rule: u16_groups.induct) simp_all

lemma group_bytes_u16: "group_bytes (unat a * 256 + unat b) = [a, b]"
proof -
  have "unat b < 256" using unsigned_less [of b] by simp
  then have "word_of_nat ((unat a * 256 + unat b) div 256) = a" by simp
  moreover have "(word_of_nat (unat a * 256 + unat b) :: 8 word) = b"
  proof (rule unsigned_word_eqI)
    have "unat (word_of_nat n :: 8 word) = n mod 256" for n
      by (simp only: unsigned_of_nat) (simp add: take_bit_eq_mod)
    from this [of "unat a * 256 + unat b"]
    show "unat (word_of_nat (unat a * 256 + unat b) :: 8 word) = unat b"
      using \<open>unat b < 256\<close> by (simp del: of_nat_add of_nat_mult)
  qed
  ultimately show ?thesis by (simp add: group_bytes_def)
qed

lemma groups_bytes_u16: "even (length bs) \<Longrightarrow> groups_bytes (u16_groups bs) = bs"
  by (induction bs rule: u16_groups.induct) (simp_all add: groups_bytes_def group_bytes_u16)

lemma zero_run_ok:
  assumes "zero_run gs = (zs, ze)" "length gs = 8"
  shows "zs = 255 \<or> zs + 2 \<le> ze \<and> ze \<le> 8 \<and> (\<forall>k. zs \<le> k \<and> k < ze \<longrightarrow> gs ! k = 0)"
proof -
  define P where "P = (\<lambda>(zs, ze). zs = 255 \<or>
    zs + 2 \<le> ze \<and> ze \<le> length gs \<and> (\<forall>k. zs \<le> k \<and> k < ze \<longrightarrow> gs ! k = 0))"
  have run: "P (i, i + length (takeWhile (\<lambda>g. g = 0) (drop i gs)))"
    if "2 \<le> length (takeWhile (\<lambda>g. g = 0) (drop i gs))" for i
  proof -
    let ?n = "length (takeWhile (\<lambda>g. g = 0) (drop i gs))"
    have "?n \<le> length gs - i" using length_takeWhile_le [of "\<lambda>g. g = 0" "drop i gs"] by simp
    moreover have "gs ! k = 0" if "i \<le> k" "k < i + ?n" for k
    proof -
      have "takeWhile (\<lambda>g. g = 0) (drop i gs) ! (k - i) = 0"
        using that set_takeWhileD [of "takeWhile (\<lambda>g. g = 0) (drop i gs) ! (k - i)" "\<lambda>g. g = 0" "drop i gs"]
        by auto
      moreover have "takeWhile (\<lambda>g. g = 0) (drop i gs) ! (k - i) = drop i gs ! (k - i)"
        using that by (intro takeWhile_nth) auto
      ultimately show ?thesis using that \<open>?n \<le> length gs - i\<close> by simp
    qed
    ultimately show ?thesis using that by (auto simp: P_def)
  qed
  have "P (foldl (\<lambda>(zs, ze) i. let j = i + length (takeWhile (\<lambda>g. g = 0) (drop i gs))
              in if j - i \<ge> 2 \<and> j - i > ze - zs then (i, j) else (zs, ze)) r is)" if "P r" for r "is"
    using that run by (induction "is" arbitrary: r) (auto simp: Let_def split: prod.split)
  from this [of "(255, 255)" "[0..<8]"] show ?thesis
    using assms by (simp add: zero_run_def P_def)
qed

lemma dotted_4: "dotted [b0, b1, b2, b3] =
    digits (unat b0) @ ''.'' @ digits (unat b1) @ ''.'' @ digits (unat b2) @ ''.'' @ digits (unat b3)"
  by (simp add: dotted_def)

lemma is_hex_digit: "is_digit c \<Longrightarrow> is_hex c"
  by (auto simp: is_digit_def is_hex_def digit_val_def hex_val_def Let_def split: if_splits)

lemma v6_loop_v4:
  assumes "length bs = 4" "length ip \<le> 12" "e \<noteq> None"
  shows "v6_loop ip e (dotted bs) = Some (ip @ bs, e, [])"
proof -
  obtain b0 b1 b2 b3 where bs: "bs = [b0, b1, b2, b3]" using assms(1) by (auto simp: numeral_eq_Suc length_Suc_conv)
  define r where "r = digits (unat b1) @ ''.'' @ digits (unat b2) @ ''.'' @ digits (unat b3)"
  have d: "dotted bs = digits (unat b0) @ CHR ''.'' # r" by (simp add: bs dotted_4 r_def)
  have all: "\<forall>c \<in> set (digits (unat b0)). is_hex c" by (simp add: digits_is_digit is_hex_digit)
  then have scan: "takeWhile is_hex (dotted bs) = digits (unat b0)" "dropWhile is_hex (dotted bs) = CHR ''.'' # r"
    unfolding d by (simp_all add: takeWhile_append2 dropWhile_append2)
  have "unat b0 < 256" using unsigned_less [of b0] by simp
  then have "length (digits (unat b0)) \<le> 4" using digits_length [of "unat b0" 2] by simp
  then show ?thesis
    using assms scan parse_v4_dotted [OF assms(1)] by (subst v6_loop.simps) (simp add: Let_def)
qed

lemma dotted_hd: "bs \<noteq> [] \<Longrightarrow> dotted bs \<noteq> [] \<and> is_digit (hd (dotted bs))"
  using digits_is_digit [of "hd (digits (unat (hd bs)))" "unat (hd bs)"]
  by (cases bs rule: list.exhaust; cases "tl bs") (auto simp: dotted_def hd_append)

lemma is_digit_colon [simp]: "\<not> is_digit (CHR '':'')" "\<not> is_digit (CHR ''%'')"
  by (simp_all add: is_digit_def digit_val_def)

lemma parse_v6_mapped:
  assumes "length bs = 4"
  shows "parse_v6_bytes (''::ffff:'' @ dotted bs) = Some (replicate 10 0 @ [255, 255] @ bs)"
proof -
  have ffff: "hex_digits 65535 = ''ffff''" proof -
    have "char_of (102 :: nat) = CHR ''f''" by code_simp
    then show ?thesis by (simp add: hex_digits_eq hex_char_def)
  qed
  have "bs \<noteq> []" using assms by auto
  then have "dotted bs \<noteq> []" "hd (dotted bs) \<noteq> CHR '':''" using dotted_hd [of bs] by auto
  then have "v6_loop [] (Some 0) (''ffff:'' @ dotted bs) = v6_loop (group_bytes 65535) (Some 0) (dotted bs)"
    using v6_loop_group [of 65535 "[]" "'':'' @ dotted bs" "Some 0"] by (simp add: ffff Let_def)
  also have "\<dots> = Some (group_bytes 65535 @ bs, Some 0, [])" using assms by (intro v6_loop_v4) simp_all
  finally show ?thesis using assms by (simp add: parse_v6_bytes_def v6_expand_def group_bytes_def)
qed

lemma groups_bytes_append: "groups_bytes (gs @ hs) = groups_bytes gs @ groups_bytes hs"
  by (simp add: groups_bytes_def)

lemma groups_bytes_zeros: "groups_bytes (replicate n 0) = replicate (2 * n) 0"
  by (induction n) (simp_all add: groups_bytes_def group_bytes_def)

lemma zero_run_split:
  assumes "zero_run gs = (zs, ze)" "length gs = 8" "zs \<noteq> 255"
  shows "gs = take zs gs @ replicate (ze - zs) 0 @ drop ze gs \<and> zs + 2 \<le> ze \<and> ze \<le> 8"
proof -
  have z: "zs + 2 \<le> ze" "ze \<le> 8" "\<And>k. zs \<le> k \<Longrightarrow> k < ze \<Longrightarrow> gs ! k = 0"
    using zero_run_ok [OF assms(1,2)] assms(3) by auto
  have "take (ze - zs) (drop zs gs) = replicate (ze - zs) 0"
    using z assms(2) by (intro nth_equalityI) auto
  then have "drop zs gs = replicate (ze - zs) 0 @ drop ze gs"
    using append_take_drop_id [of "ze - zs" "drop zs gs"] z by simp
  then show ?thesis using append_take_drop_id [of zs gs] z by simp
qed

lemma no_colons: "s \<noteq> [] \<Longrightarrow> hd s \<noteq> CHR '':'' \<Longrightarrow> take 2 s \<noteq> ''::''"
  by (cases s) auto

lemma parse_v6_groups:
  assumes "length gs = 8" "\<forall>g \<in> set gs. g < 65536"
  shows "parse_v6_bytes (let (zs, ze) = zero_run gs
         in if zs = 255 then Join '':'' (map hex_digits gs)
            else Join '':'' (map hex_digits (take zs gs)) @ ''::'' @
                 Join '':'' (map hex_digits (drop ze gs))) = Some (groups_bytes gs)"
proof -
  obtain zs ze where run: "zero_run gs = (zs, ze)" by fastforce
  show ?thesis
  proof (cases "zs = 255")
    case True
    have "gs \<noteq> []" using assms(1) by auto
    from v6_loop_end [OF this assms(2), of "[]" None] no_colons [OF Join_hex_hd(1) [OF this]] Join_hex_hd(2) [OF this, of "[]"]
    show ?thesis using assms(1) by (simp add: run True parse_v6_bytes_def v6_expand_def groups_bytes_length)
  next
    case False
    let ?a = "take zs gs" and ?b = "drop ze gs" and ?n = "ze - zs"
    note z = zero_run_split [OF run assms(1) False]
    have len: "length ?a = zs" "length ?b = 8 - ze" using z assms(1) by auto
    have small: "\<forall>g \<in> set ?a. g < 65536" "\<forall>g \<in> set ?b. g < 65536"
      using assms(2) by (auto dest: in_set_takeD in_set_dropD)
    have bytes: "groups_bytes gs = groups_bytes ?a @ replicate (2 * ?n) 0 @ groups_bytes ?b"
      using z by (metis groups_bytes_append groups_bytes_zeros)
    have tail: "v6_loop (groups_bytes ?a) (Some (length (groups_bytes ?a))) (Join '':'' (map hex_digits ?b)) =
        Some (groups_bytes ?a @ groups_bytes ?b, Some (length (groups_bytes ?a)), [])" if "?b \<noteq> []"
      using that small(2) z len by (intro v6_loop_end) (auto simp: groups_bytes_length)
    have expand: "v6_expand (groups_bytes ?a @ groups_bytes ?b, Some (length (groups_bytes ?a)), []) = Some (groups_bytes gs)"
    proof -
      have "16 - (2 * zs + 2 * (8 - ze)) = 2 * ?n" "2 * zs + 2 * (8 - ze) < 16" "min 8 zs = zs" using z by auto
      then show ?thesis unfolding bytes by (simp add: v6_expand_def groups_bytes_length assms(1))
    qed
    show ?thesis
    proof (cases "?a = []")
      case True
      then have "Join '':'' (map hex_digits ?a) = []" "groups_bytes ?a = []" unfolding True by (simp_all add: groups_bytes_def)
      moreover have "groups_bytes gs = replicate 16 0" if "?b = []"
      proof -
        have "2 * ?n = 16" using True that z assms(1) by auto
        then show ?thesis using bytes calculation(2) unfolding that by (simp add: groups_bytes_def)
      qed
      moreover have "Join '':'' (map hex_digits ?b) \<noteq> []" if "?b \<noteq> []" using that Join_hex_hd(1) by blast
      ultimately show ?thesis
        using tail expand False by (cases "?b = []") (simp_all add: run parse_v6_bytes_def)
    next
      case a: False
      note start = Join_hex_hd [OF a]
      have "v6_loop [] None (Join '':'' (map hex_digits ?a) @ ''::'' @ Join '':'' (map hex_digits ?b)) =
          Some (groups_bytes ?a @ groups_bytes ?b, Some (length (groups_bytes ?a)), [])"
        using v6_loop_colons [OF a small(1), of "[]" "Join '':'' (map hex_digits ?b)"] z tail len
          Join_hex_hd(1) [of ?b]
        by (cases "?b = []") (auto simp: Let_def groups_bytes_def)
      moreover have "take 2 (Join '':'' (map hex_digits ?a) @ t) \<noteq> ''::''" for t
        using no_colons [of "Join '':'' (map hex_digits ?a) @ t"] start by simp
      ultimately show ?thesis using expand False by (simp add: run parse_v6_bytes_def)
    qed
  qed
qed

lemma parse_v6_String:
  assumes "length bs = 16"
  shows "parse_v6_bytes (v6_String bs) = Some bs"
proof (cases "take 12 bs = replicate 10 0 @ [255, 255]")
  case True
  have "replicate 10 0 @ [255, 255] @ drop 12 bs = bs" using True append_take_drop_id [of 12 bs] by simp
  then show ?thesis using True assms parse_v6_mapped [of "drop 12 bs"] by (simp add: v6_String_def)
next
  case False
  then show ?thesis
    using assms parse_v6_groups [of "u16_groups bs"] u16_groups_length [of bs] u16_groups_less [of _ bs]
      groups_bytes_u16 [of bs]
    by (simp add: v6_String_def Let_def)
qed

section \<open>The first mark of a text\<close>

lemma is_mark_simps [simp]: "is_mark (CHR ''.'')" "is_mark (CHR '':'')" "is_mark (CHR ''%'')"
  by (simp_all add: is_mark_def)

lemma find_mark: "\<forall>c \<in> set s. \<not> is_mark c \<Longrightarrow> is_mark m \<Longrightarrow> find is_mark (s @ m # t) = Some m"
  by (induction s) auto

lemma hex_not_mark: "is_hex c \<Longrightarrow> \<not> is_mark c"
  by (auto simp: is_mark_def is_hex_def hex_val_def)

lemma hex_digits_no_mark: "\<forall>c \<in> set (hex_digits n). \<not> is_mark c"
  using hex_digits_hex [of n] hex_not_mark by (auto simp: list_all_iff)

lemma Join_hex_mark:
  "gs \<noteq> [] \<Longrightarrow> tl gs \<noteq> [] \<or> hd t = CHR '':'' \<and> t \<noteq> [] \<Longrightarrow>
   find is_mark (Join '':'' (map hex_digits gs) @ t) = Some (CHR '':'')"
  using find_mark [OF hex_digits_no_mark, of "CHR '':''"]
  by (cases gs; cases "tl gs"; cases t) (simp_all add: Join_Cons)

lemma v6_mark: "length bs = 16 \<Longrightarrow> find is_mark (v6_String bs @ t) = Some (CHR '':'')"
proof -
  assume len: "length bs = 16"
  let ?gs = "u16_groups bs"
  have gs: "length ?gs = 8" using len u16_groups_length by simp
  then have more: "?gs \<noteq> []" "tl ?gs \<noteq> []" by (cases ?gs; cases "tl ?gs"; simp)+
  obtain zs ze where run: "zero_run ?gs = (zs, ze)" by fastforce
  have "find is_mark (Join '':'' (map hex_digits (take zs ?gs)) @ ''::'' @ u) = Some (CHR '':'')" for u
  proof (cases "take zs ?gs = []")
    case True
    show ?thesis unfolding True by simp
  next
    case False
    then show ?thesis using Join_hex_mark [of "take zs ?gs" "''::'' @ u"] by simp
  qed
  then show ?thesis using Join_hex_mark [of ?gs t] more by (simp add: v6_String_def run Let_def)
qed

lemma dotted_chars: "c \<in> set (dotted bs) \<Longrightarrow> is_digit c \<or> c = CHR ''.''"
  using set_Join [of "''.''" "map (\<lambda>b. digits (unat b)) bs"] digits_is_digit by (auto simp: dotted_def)

lemma v6_no_zone: "CHR ''%'' \<notin> set (v6_String bs)"
proof -
  have groups: "CHR ''%'' \<notin> set (Join '':'' (map hex_digits gs))" for gs
    using set_Join [of "'':''" "map hex_digits gs"] hex_digits_no_mark is_mark_simps(3) by fastforce
  have dots: "CHR ''%'' \<notin> set (dotted cs)" for cs
    using dotted_chars [of "CHR ''%''" cs] by auto
  obtain zs ze where run: "zero_run (u16_groups bs) = (zs, ze)" by fastforce
  show ?thesis by (simp add: v6_String_def Let_def run groups dots)
qed

fun Addr_ok :: "Addr \<Rightarrow> bool" where
  "Addr_ok AddrZero = True"
| "Addr_ok (Addr4 bs) = (length bs = 4)"
| "Addr_ok (Addr16 bs) = (length bs = 16)"
| "Addr_ok (AddrZone bs zone) = (length bs = 16 \<and> zone \<noteq> [])"

lemma parse_v6_printed:
  assumes "length bs = 16"
  shows "parse_v6 (v6_String bs) = Some (Addr16 bs)"
    and "zone \<noteq> [] \<Longrightarrow> parse_v6 (v6_String bs @ ''%'' @ zone) = Some (AddrZone bs zone)"
proof -
  have tw: "takeWhile (\<lambda>c. c \<noteq> CHR ''%'') (v6_String bs) = v6_String bs"
    "takeWhile (\<lambda>c. c \<noteq> CHR ''%'') (v6_String bs @ ''%'' @ zone) = v6_String bs"
    using v6_no_zone [of bs] by (auto simp: takeWhile_eq_all_conv takeWhile_append)
  show "parse_v6 (v6_String bs) = Some (Addr16 bs)"
    and "zone \<noteq> [] \<Longrightarrow> parse_v6 (v6_String bs @ ''%'' @ zone) = Some (AddrZone bs zone)"
    unfolding parse_v6_def tw using parse_v6_String [OF assms] by simp_all
qed

lemma dotted_mark:
  assumes "length bs = 4"
  shows "find is_mark (dotted bs) = Some (CHR ''.'')"
proof -
  obtain b0 b1 b2 b3 where bs: "bs = [b0, b1, b2, b3]" using assms by (auto simp: numeral_eq_Suc length_Suc_conv)
  have "\<forall>c \<in> set (digits (unat b0)). \<not> is_mark c" by (simp add: digits_is_digit is_hex_digit hex_not_mark)
  from find_mark [OF this, of "CHR ''.''"] show ?thesis by (simp add: bs dotted_4)
qed

lemma ParseAddr_String:
  assumes "Addr_ok a" "IsValid a"
  shows "ParseAddr (Addr_String a) = Some a"
proof (cases a)
  case (Addr4 bs)
  then show ?thesis using assms dotted_mark [of bs] by (simp add: ParseAddr_def parse_v4_dotted)
next
  case (Addr16 bs)
  then show ?thesis using assms v6_mark [of bs "[]"] by (simp add: ParseAddr_def parse_v6_printed)
next
  case (AddrZone bs zone)
  then show ?thesis
    using assms v6_mark [of bs "''%'' @ zone"] parse_v6_printed(2) [of bs zone] by (simp add: ParseAddr_def)
qed (use assms in simp)

end
