(* ===== verification/RowJson.thy ===== *)
theory RowJson
  imports Proto NetAddr
begin

text \<open>
  The messages between live-sniffer's listener and its savers: what \<open>json.Marshal\<close> makes of a
  batch of \<open>storage.PacketRow\<close>, whose fields have no tags, and what \<open>json.Unmarshal\<close> makes of a
  message. Times are written in \<open>RFC3339Nano\<close> and must have a year of four digits, an address is
  its text and the invalid one the empty string, integers must fit their width. The two methods
  of \<open>pgtype.UUID\<close> are parameters. As in \<open>Proto\<close> a message is the JSON value.
\<close>

section \<open>Fields\<close>

fun set_time :: "json \<Rightarrow> nanos \<Rightarrow> nanos \<times> bool" where
  "set_time (JStr s) old = (case parse_RFC3339 s of Some t \<Rightarrow> (t, False) | None \<Rightarrow> (time_zero, True))"
| "set_time JNull old = (old, False)"
| "set_time _ old = (old, True)"

definition Addr_MarshalText :: "Addr \<Rightarrow> string" where
  "Addr_MarshalText a = (if IsValid a then Addr_String a else [])"

fun set_addr :: "json \<Rightarrow> Addr \<Rightarrow> Addr \<times> bool" where
  "set_addr (JStr s) old =
     (if s = [] then (AddrZero, False)
      else (case ParseAddr s of Some a \<Rightarrow> (a, False) | None \<Rightarrow> (AddrZero, True)))"
| "set_addr JNull old = (old, False)"
| "set_addr _ old = (old, True)"

fun set_word :: "json \<Rightarrow> 'w::len word \<Rightarrow> 'w word \<times> bool" where
  "set_word (JNum s) old =
     (case Atoi s of
        Inr i \<Rightarrow> if - (2 ^ (LENGTH('w) - 1)) \<le> i \<and> i < 2 ^ (LENGTH('w) - 1) then (word_of_int i, False) else (old, True)
      | Inl _ \<Rightarrow> (old, True))"
| "set_word JNull old = (old, False)"
| "set_word _ old = (old, True)"

section \<open>Rows and batches\<close>

definition row_fields :: "string list" where
  "row_fields =
     [''Time'', ''SrcIP'', ''DstIP'', ''SrcPort'', ''DstPort'', ''Protocol'', ''Length'', ''TCPFlags'', ''SourceID'']"

definition encode_Row :: "(UUID \<Rightarrow> json) \<Rightarrow> PacketRow \<Rightarrow> json" where
  "encode_Row uuid_Marshal r = JObj
     [(''Time'', JStr (format_RFC3339Nano (Time r))), (''SrcIP'', JStr (Addr_MarshalText (SrcIP r))),
      (''DstIP'', JStr (Addr_MarshalText (DstIP r))), (''SrcPort'', JNum (Itoa (sint (SrcPort r)))),
      (''DstPort'', JNum (Itoa (sint (DstPort r)))), (''Protocol'', JStr (Protocol r)),
      (''Length'', JNum (Itoa (sint (PLength r)))), (''TCPFlags'', JNum (Itoa (sint (TCPFlags r)))),
      (''SourceID'', uuid_Marshal (SourceID r))]"

definition set_Row :: "(json \<Rightarrow> UUID option) \<Rightarrow> string \<Rightarrow> json \<Rightarrow> PacketRow \<Rightarrow> PacketRow \<times> bool" where
  "set_Row uuid_Unmarshal n v r =
     (if n = ''Time'' then (let (t, e) = set_time v (Time r) in (r\<lparr>Time := t\<rparr>, e))
      else if n = ''SrcIP'' then (let (a, e) = set_addr v (SrcIP r) in (r\<lparr>SrcIP := a\<rparr>, e))
      else if n = ''DstIP'' then (let (a, e) = set_addr v (DstIP r) in (r\<lparr>DstIP := a\<rparr>, e))
      else if n = ''SrcPort'' then (let (w, e) = set_word v (SrcPort r) in (r\<lparr>SrcPort := w\<rparr>, e))
      else if n = ''DstPort'' then (let (w, e) = set_word v (DstPort r) in (r\<lparr>DstPort := w\<rparr>, e))
      else if n = ''Protocol'' then (let (s, e) = set_string v (Protocol r) in (r\<lparr>Protocol := s\<rparr>, e))
      else if n = ''Length'' then (let (w, e) = set_word v (PLength r) in (r\<lparr>PLength := w\<rparr>, e))
      else if n = ''TCPFlags'' then (let (w, e) = set_word v (TCPFlags r) in (r\<lparr>TCPFlags := w\<rparr>, e))
      else (case uuid_Unmarshal v of Some u \<Rightarrow> (r\<lparr>SourceID := u\<rparr>, False) | None \<Rightarrow> (r, True)))"

definition zero_row :: PacketRow where
  "zero_row = \<lparr>Time = time_zero, SrcIP = AddrZero, DstIP = AddrZero, SrcPort = 0, DstPort = 0, Protocol = [],
     PLength = 0, TCPFlags = 0, SourceID = UUID_zero\<rparr>"

definition decode_Row :: "(json \<Rightarrow> UUID option) \<Rightarrow> json \<Rightarrow> PacketRow \<Rightarrow> PacketRow \<times> bool" where
  "decode_Row uuid_Unmarshal = decode_struct row_fields (set_Row uuid_Unmarshal)"

definition marshal_batch :: "(UUID \<Rightarrow> json) \<Rightarrow> PacketRow list \<Rightarrow> string + json" where
  "marshal_batch uuid_Marshal batch =
     (if list_all (\<lambda>r. year_ok (Time r)) batch then Inr (JList (map (encode_Row uuid_Marshal) batch))
      else Inl ''json: error calling MarshalJSON for type time.Time'')"

definition unmarshal_batch :: "(json \<Rightarrow> UUID option) \<Rightarrow> json \<Rightarrow> PacketRow list option" where
  "unmarshal_batch uuid_Unmarshal m =
     (let (batch, err) = set_slice (decode_Row uuid_Unmarshal) zero_row m [] in if err then None else Some batch)"

section \<open>Round trips\<close>

definition Row_ok :: "PacketRow \<Rightarrow> bool" where
  "Row_ok r \<longleftrightarrow> year_ok (Time r) \<and> Addr_ok (SrcIP r) \<and> Addr_ok (DstIP r)"

lemma set_time_printed: "year_ok t \<Longrightarrow> set_time (JStr (format_RFC3339Nano t)) old = (t, False)"
  by (simp add: parse_format_RFC3339Nano)

lemma Addr_String_not_Nil: "Addr_ok a \<Longrightarrow> IsValid a \<Longrightarrow> Addr_String a \<noteq> []"
  using ParseAddr_String [of a] by (auto simp: ParseAddr_def)

lemma set_addr_printed: "Addr_ok a \<Longrightarrow> set_addr (JStr (Addr_MarshalText a)) old = (a, False)"
  using ParseAddr_String [of a] Addr_String_not_Nil [of a] by (auto simp: Addr_MarshalText_def IsValid_def)

lemma set_word_printed:
  fixes w :: "'w::len word"
  assumes "LENGTH('w) \<le> 64"
  shows "set_word (JNum (Itoa (sint w))) old = (w, False)"
proof -
  have r: "- (2 ^ (LENGTH('w) - 1)) \<le> sint w" "sint w < 2 ^ (LENGTH('w) - 1)"
    using sint_greater_eq [of w] sint_less [of w] by simp_all
  have "(2 :: int) ^ (LENGTH('w) - 1) \<le> 2 ^ 63" using assms by (intro power_increasing) auto
  then have "Atoi (Itoa (sint w)) = Inr (sint w)" using r by (intro Atoi_Itoa) simp
  then show ?thesis using r by simp
qed

lemma decode_encode_Row:
  assumes "Row_ok r" "uuid_Unmarshal (uuid_Marshal (SourceID r)) = Some (SourceID r)"
  shows "decode_Row uuid_Unmarshal (encode_Row uuid_Marshal r) zero_row = (r, False)"
  using assms
  by (cases r) (simp add: decode_Row_def encode_Row_def decode_struct_def row_fields_def set_Row_def zero_row_def
      Row_ok_def set_time_printed set_addr_printed set_word_printed del: set_time.simps set_addr.simps set_word.simps)

interpretation row: codec "encode_Row uuid_Marshal" "\<lambda>v. decode_Row uuid_Unmarshal v zero_row"
    "\<lambda>r. Row_ok r \<and> uuid_Unmarshal (uuid_Marshal (SourceID r)) = Some (SourceID r)"
  for uuid_Marshal uuid_Unmarshal
  by unfold_locales (simp add: decode_encode_Row)

definition fits_batch :: "(UUID \<Rightarrow> json) \<Rightarrow> (json \<Rightarrow> UUID option) \<Rightarrow> PacketRow list \<Rightarrow> bool" where
  "fits_batch uuid_Marshal uuid_Unmarshal b \<longleftrightarrow>
     (\<forall>r \<in> set b. Row_ok r \<and> uuid_Unmarshal (uuid_Marshal (SourceID r)) = Some (SourceID r))"

lemma decode_encode_rows:
  "fits_batch J S b \<Longrightarrow> decode_elements (decode_Row S) zero_row (map (encode_Row J) b) [] = (b, False)"
  by (induction b) (simp_all add: fits_batch_def decode_encode_Row)

lemma unmarshal_marshal:
  assumes "fits_batch J S b"
  shows "marshal_batch J b = Inr (JList (map (encode_Row J) b))"
    and "unmarshal_batch S (JList (map (encode_Row J) b)) = Some b"
  using assms decode_encode_rows [OF assms]
  by (auto simp: marshal_batch_def unmarshal_batch_def set_slice_def list_all_iff fits_batch_def Row_ok_def)

section \<open>Properties\<close>

text \<open>
  C21: A batch survives Kafka: \<open>json.Marshal\<close> of a batch fails exactly when a row's year has not
  four digits, and then nothing of the batch is sent; otherwise, if the addresses have the length
  of their family and the identifiers' JSON reads back, the message reads back as exactly the
  batch, to the nanosecond, with every kind of address (IPv6 with a run of zeros, embedded IPv4, a
  zone, the invalid one) and every value of the integer fields.
\<close>

theorem batch_round_trip:
  "((\<exists>e. marshal_batch J b = Inl e) \<longleftrightarrow> (\<exists>r \<in> set b. \<not> year_ok (Time r))) \<and>
   ((\<forall>r \<in> set b. year_ok (Time r) \<and> Addr_ok (SrcIP r) \<and> Addr_ok (DstIP r) \<and>
        S (J (SourceID r)) = Some (SourceID r)) \<longrightarrow>
     (\<exists>m. marshal_batch J b = Inr m \<and> unmarshal_batch S m = Some b))"
proof -
  have "(\<exists>e. marshal_batch J b = Inl e) \<longleftrightarrow> (\<exists>r \<in> set b. \<not> year_ok (Time r))"
    by (auto simp: marshal_batch_def list_all_iff)
  moreover have "\<exists>m. marshal_batch J b = Inr m \<and> unmarshal_batch S m = Some b" if "fits_batch J S b"
    using unmarshal_marshal [OF that] by blast
  ultimately show ?thesis by (auto simp: fits_batch_def Row_ok_def)
qed

text \<open>A packet between two IPv6 addresses, one with a run of zeros and one that embeds an IPv4 address.\<close>

definition v6_row :: PacketRow where
  "v6_row = zero_row\<lparr>Time := 1700000000123456789, SrcIP := Addr16 [32, 1, 13, 184, 0, 0, 0, 0, 0, 0, 0, 0, 0, 0, 0, 1],
     DstIP := Addr16 [0, 0, 0, 0, 0, 0, 0, 0, 0, 0, 255, 255, 10, 0, 0, 1], PLength := 1500\<rparr>"

lemma v6_row_text: "Addr_String (SrcIP v6_row) = ''2001:db8::1''"
proof -
  have "[0..<8] = [0, 1, 2, 3, 4, 5, 6, 7 :: nat]" by code_simp
  then have run: "zero_run [8193, 3512, 0, 0, 0, 0, 0, 1] = (2, 7)" by (simp add: zero_run_def)
  have chars: "char_of (98 :: nat) = CHR ''b''" "char_of (100 :: nat) = CHR ''d''" "digit_char 0 = CHR ''0''"
    "digit_char 1 = CHR ''1''" "digit_char 2 = CHR ''2''" "digit_char 8 = CHR ''8''" by code_simp+
  have "hex_digits 8193 = ''2001''" "hex_digits 3512 = ''db8''" "hex_digits 1 = ''1''"
    using chars by (simp_all add: hex_digits_eq hex_char_def)
  then show ?thesis using run by (simp add: v6_row_def v6_String_def Let_def)
qed

lemma batch_round_trip_witness:
  "\<exists>m. marshal_batch (\<lambda>_. JNull) [v6_row] = Inr m \<and> unmarshal_batch (\<lambda>_. Some UUID_zero) m = Some [v6_row]"
proof -
  have "year_ok (Time v6_row)" by (simp add: v6_row_def) code_simp
  then show ?thesis
    using batch_round_trip [of "\<lambda>_. JNull" "[v6_row]" "\<lambda>_. Some UUID_zero"] by (simp add: v6_row_def zero_row_def)
qed

end
