(* ===== verification/Listener.thy ===== *)
theory Listener
  imports PcapReader Launcher RowJson
begin

text \<open>
  live-sniffer's listener, \<open>live-sniffer/internal/network/listener.go\<close>, and what it and the savers
  behind the Kafka topic do together. A run is the list of packets that the capture delivers, each
  with whether the context was cancelled when the loop looked and with what Kafka answers to a
  batch sent in that iteration.
\<close>

section \<open>The code\<close>

definition OpenListenerOnNetwork :: "(string \<Rightarrow> string + 'h) \<Rightarrow> ('h \<Rightarrow> 'src) \<Rightarrow> string \<Rightarrow> string + 'src" where
  "OpenListenerOnNetwork OpenLive NewPacketSource iface =
     (case OpenLive iface of Inl e \<Rightarrow> Inl e | Inr handle \<Rightarrow> Inr (NewPacketSource handle))"

text \<open>The messages of a topic, in the order in which they were produced.\<close>

definition sendBatch ::
  "(PacketRow list \<Rightarrow> string + 'm) \<Rightarrow> string option \<Rightarrow> string \<Rightarrow> PacketRow list \<Rightarrow> (string \<times> 'm) list \<Rightarrow>
   string option \<times> (string \<times> 'm) list"
where
  "sendBatch marshal produceErr topic batch produced =
     (case marshal batch of
        Inl e \<Rightarrow> (Some e, produced)
      | Inr m \<Rightarrow> (case produceErr of Some e \<Rightarrow> (Some e, produced) | None \<Rightarrow> (None, produced @ [(topic, m)])))"

record delivery =
  packet :: gopacket
  ctx_over :: bool
  kafka_answer :: "string option"

text \<open>The errors of \<open>sendBatch\<close> are only logged. \<open>None\<close> is a panic of the decoder.\<close>

fun ListenOnNetwork ::
  "(8 word \<Rightarrow> string) \<Rightarrow> (PacketRow list \<Rightarrow> string + 'm) \<Rightarrow> UUID \<Rightarrow> string \<Rightarrow> nat \<Rightarrow> PacketRow list \<Rightarrow>
   delivery list \<Rightarrow> (string \<times> 'm) list \<Rightarrow> (string \<times> 'm) list option"
where
  "ListenOnNetwork pS marshal sessionID topic batchSize batch [] produced = Some produced"
| "ListenOnNetwork pS marshal sessionID topic batchSize batch (e # es) produced =
     (if ctx_over e then
        Some (if length batch > 0 then snd (sendBatch marshal (kafka_answer e) topic batch produced) else produced)
      else
        (case PacketDecoder pS sessionID (packet e) of
           None \<Rightarrow> None
         | Some row \<Rightarrow>
             (if \<not> IsValid (SrcIP row) \<or> \<not> IsValid (DstIP row)
              then ListenOnNetwork pS marshal sessionID topic batchSize batch es produced
              else
                (let batch = batch @ [row] in
                 if length batch \<ge> batchSize
                 then ListenOnNetwork pS marshal sessionID topic batchSize [] es
                        (snd (sendBatch marshal (kafka_answer e) topic batch produced))
                 else ListenOnNetwork pS marshal sessionID topic batchSize batch es produced))))"

section \<open>What is captured\<close>

text \<open>The rows of the IP packets that came before the cancellation.\<close>

fun captured :: "(8 word \<Rightarrow> string) \<Rightarrow> UUID \<Rightarrow> delivery list \<Rightarrow> PacketRow list option" where
  "captured pS u [] = Some []"
| "captured pS u (e # es) =
     (if ctx_over e then Some []
      else (case PacketDecoder pS u (packet e) of
              None \<Rightarrow> None
            | Some row \<Rightarrow> map_option (\<lambda>rows. if IsValid (SrcIP row) \<and> IsValid (DstIP row) then row # rows else rows)
                (captured pS u es)))"

definition sent_batches :: "bool \<Rightarrow> nat \<Rightarrow> PacketRow list \<Rightarrow> PacketRow list list" where
  "sent_batches cancelled n rows = chunks n (if cancelled then rows else take (length rows div n * n) rows)"

lemma sent_batches_full:
  assumes "length b = n" "0 < n"
  shows "sent_batches x n (b @ rows) = b # sent_batches x n rows"
proof -
  have "take (length (b @ rows) div n * n) (b @ rows) = b @ take (length rows div n * n) rows"
    using assms by (simp add: div_add_self1)
  then show ?thesis using chunks_append [OF assms] by (auto simp: sent_batches_def)
qed

lemma sent_batches_short: "length b < n \<Longrightarrow> sent_batches False n b = []"
  by (simp add: sent_batches_def)

lemma sent_batches_last: "b \<noteq> [] \<Longrightarrow> length b < n \<Longrightarrow> sent_batches True n b = [b]"
  by (simp add: sent_batches_def chunks_small)

lemma concat_sent: "0 < n \<Longrightarrow> concat (sent_batches x n rows) =
   (if x then rows else take (length rows div n * n) rows)"
  by (simp add: sent_batches_def concat_chunks)

lemma listener_run:
  assumes "0 < n" "\<forall>e \<in> set es. kafka_answer e = None"
    and "\<And>b. list_all ok b \<Longrightarrow> marshal b = Inr (enc b)"
    and "\<forall>e \<in> set es. \<forall>row. PacketDecoder pS u (packet e) = Some row \<longrightarrow> ok row"
  shows "length batch < n \<Longrightarrow> list_all ok batch \<Longrightarrow>
    ListenOnNetwork pS marshal u topic n batch es q =
    map_option (\<lambda>rows. q @ map (\<lambda>b. (topic, enc b)) (sent_batches (list_ex ctx_over es) n (batch @ rows)))
      (captured pS u es)"
  using assms(2,4)
proof (induction es arbitrary: batch q)
  case Nil
  then show ?case by (simp add: sent_batches_short)
next
  case (Cons e es)
  have send: "snd (sendBatch marshal (kafka_answer e) topic b q) = q @ [(topic, enc b)]" if "list_all ok b" for b
    using Cons.prems(3) assms(3) [OF that] by (simp add: sendBatch_def)
  have rest: "\<forall>e \<in> set es. kafka_answer e = None"
    "\<forall>e \<in> set es. \<forall>row. PacketDecoder pS u (packet e) = Some row \<longrightarrow> ok row"
    using Cons.prems(3,4) by simp_all
  show ?case
  proof (cases "ctx_over e")
    case True
    then show ?thesis using Cons.prems(1,2) send
      by (cases batch) (simp_all add: sent_batches_last sent_batches_def [of _ _ "[]"])
  next
    case False
    show ?thesis
    proof (cases "PacketDecoder pS u (packet e)")
      case (Some row)
      then have ok: "ok row" "list_all ok (batch @ [row])" using Cons.prems(2,4) by simp_all
      show ?thesis
      proof (cases "length (batch @ [row]) \<ge> n")
        case True
        then have "length (batch @ [row]) = n" using Cons.prems(1) by simp
        from sent_batches_full [OF this assms(1)]
        have "sent_batches x n (batch @ row # rows) = (batch @ [row]) # sent_batches x n rows" for x rows by simp
        then show ?thesis
          using Cons.IH [of "[]" "q @ [(topic, enc (batch @ [row]))]"] Cons.IH [OF Cons.prems(1,2) rest] rest
            False True Some send [OF ok(2)] ok assms(1) \<open>length (batch @ [row]) = n\<close>
          by (cases "captured pS u es") (simp_all add: Let_def)
      next
        case short: False
        then show ?thesis
          using Cons.IH [of "batch @ [row]" q] Cons.IH [OF Cons.prems(1,2) rest, of q] rest False Some ok
          by (cases "captured pS u es") (simp_all add: Let_def)
      qed
    qed (simp add: False)
  qed
qed

lemma captured_valid:
  "captured pS u es = Some rows \<Longrightarrow> r \<in> set rows \<Longrightarrow> IsValid (SrcIP r) \<and> IsValid (DstIP r) \<and> SourceID r = u"
  by (induction es arbitrary: rows)
    (auto simp: PacketDecoder_def Let_def split: if_splits option.splits prod.splits)

text \<open>Every decoded row fits its message, if its time does.\<close>

lemma decoded_row:
  "PacketDecoder pS u p = Some r \<Longrightarrow>
   Time r = ci_Timestamp p \<and> Addr_ok (SrcIP r) \<and> Addr_ok (DstIP r) \<and> SourceID r = u"
  by (auto simp: PacketDecoder_def decode_network_def dest!: to_array_length split: option.splits prod.splits)

lemma decoded_fits: "PacketDecoder pS u p = Some r \<Longrightarrow> year_ok (ci_Timestamp p) \<Longrightarrow> Row_ok r \<and> SourceID r = u"
  using decoded_row by (simp add: Row_ok_def)

lemma captured_ok:
  "captured pS u es = Some rows \<Longrightarrow>
   \<forall>e \<in> set es. \<forall>row. PacketDecoder pS u (packet e) = Some row \<longrightarrow> ok row \<Longrightarrow> r \<in> set rows \<Longrightarrow> ok r"
  by (induction es arbitrary: rows) (auto split: if_splits option.splits)

section \<open>The topic's other side\<close>

fun messages :: "'m kafka_event list \<Rightarrow> 'm list" where
  "messages [] = []"
| "messages (Message m env # es) = m # messages es"
| "messages (_ # es) = messages es"

lemma incoming_live_events:
  "LiveCtxDone \<notin> set es \<Longrightarrow> incoming (live_events unmarshal es) = List.map_filter unmarshal (messages es)"
  by (induction es rule: messages.induct) (auto simp: List.map_filter_def split: option.split)

lemma map_filter_encoded: "\<forall>b \<in> set bs. unmarshal (enc b) = Some b \<Longrightarrow> List.map_filter unmarshal (map enc bs) = bs"
  by (induction bs) (simp_all add: List.map_filter_def)

lemma onFailure_packets: "packet_logs (onFailure f u d) = packet_logs d"
  by (auto simp: onFailure_def UpdateSession_def run_stmt_def update_session_stmt_def split: fault.split sum.split)

interpretation live_saver: saver_store "pg_CopyFrom inet_in" packet_logs
    "\<lambda>rows. those (map (as_stored inet_in) rows)" "\<lambda>f t. onFailure f u"
  for inet_in u
proof (rule saver_store.intro)
  show "bulk_writer (pg_CopyFrom inet_in f) packet_logs (\<lambda>rows. those (map (as_stored inet_in) rows))" for f
    by (rule pg.bulk_writer_axioms)
qed (simp_all add: onFailure_packets those_length)

text \<open>A saver that took everything stored and counted everything.\<close>

lemma stored_by_saver:
  assumes "PacketSaverWorker (pg_CopyFrom inet_in) (\<lambda>f t. onFailure f u) evs new_saver d = (Waiting, w, sl, d')"
  shows "\<exists>rs. those (map (as_stored inet_in) (concat (incoming evs))) = Some rs \<and>
    packet_logs d' = packet_logs d @ rs \<and> localSaved w = length rs"
proof -
  obtain n where n: "live_saver.accounted inet_in Waiting (concat (take n (incoming evs))) new_saver w d d'"
    "length (incoming evs) \<le> n"
    using live_saver.saver_accounting [OF assms] by blast
  then obtain rs where "those (map (as_stored inet_in) (concat (incoming evs))) = Some rs"
    "packet_logs d' = packet_logs d @ rs" "localSaved w = length (concat (incoming evs))"
    by (auto simp: live_saver.accounted_def new_saver_def)
  moreover from this(1) have "length rs = length (concat (incoming evs))" by (auto dest!: those_length)
  ultimately show ?thesis by auto
qed

section \<open>Properties\<close>

text \<open>
  C11: From the network to the table: if Kafka takes every message, a saver that reads all of them
  and whose writes succeed stores the rows of exactly the IP packets that were captured before the
  cancellation, in order and each once, every one under the session's identifier, and counts them.
  They travel as JSON in messages of 500 rows with one shorter message at the end. If the capture
  ends without a cancellation the rows since the last full 500 are never sent. The hypotheses on
  the data are that the packets' times have years of four digits and that the identifier's JSON reads
  back.
\<close>

theorem captured_packets_are_stored:
  assumes "captured pS u es = Some rows" "\<forall>e \<in> set es. kafka_answer e = None \<and> year_ok (ci_Timestamp (packet e))"
    and "uuid_Unmarshal (uuid_Marshal u) = Some u"
    and "ListenOnNetwork pS (marshal_batch uuid_Marshal) u topic 500 [] es [] = Some produced"
    and "messages evs = map snd produced" "LiveCtxDone \<notin> set evs"
    and "LivePacketSaverWorker (unmarshal_batch uuid_Unmarshal) (pg_CopyFrom inet_in) (\<lambda>f t. onFailure f u) evs
      new_saver d = (Waiting, w, sl, d')"
  shows "\<exists>bs rs. map Inr (map snd produced) = map (marshal_batch uuid_Marshal) bs \<and>
    (\<forall>b \<in> set bs. b \<noteq> [] \<and> length b \<le> 500) \<and>
    concat bs = (if list_ex ctx_over es then rows else take (length rows div 500 * 500) rows) \<and>
    (\<forall>r \<in> set (concat bs). IsValid (SrcIP r) \<and> IsValid (DstIP r) \<and> SourceID r = u) \<and>
    those (map (as_stored inet_in) (concat bs)) = Some rs \<and>
    packet_logs d' = packet_logs d @ rs \<and> localSaved w = length rs"
proof -
  let ?bs = "sent_batches (list_ex ctx_over es) 500 rows" and ?enc = "\<lambda>b. JList (map (encode_Row uuid_Marshal) b)"
  let ?ok = "\<lambda>r. Row_ok r \<and> SourceID r = u"
  have fits: "fits_batch uuid_Marshal uuid_Unmarshal b" if "list_all ?ok b" for b
    using that assms(3) by (auto simp: fits_batch_def list_all_iff)
  have decoded: "\<forall>e \<in> set es. \<forall>row. PacketDecoder pS u (packet e) = Some row \<longrightarrow> ?ok row"
    using assms(2) decoded_fits by blast
  have produced: "produced = map (\<lambda>b. (topic, ?enc b)) ?bs"
    using listener_run [where ok = ?ok and enc = ?enc and batch = "[]" and topic = topic and q = "[]",
        OF _ _ unmarshal_marshal(1) [OF fits] decoded, of 500] assms(1,2,4) by simp
  have rows: "concat ?bs = (if list_ex ctx_over es then rows else take (length rows div 500 * 500) rows)"
    by (rule concat_sent) simp
  have "set (concat ?bs) \<subseteq> set rows" unfolding rows by (auto dest: in_set_takeD)
  then have ok: "list_all ?ok b" if "b \<in> set ?bs" for b
    using captured_ok [OF assms(1) decoded] that by (auto simp: list_all_iff)
  have valid: "\<forall>r \<in> set (concat ?bs). IsValid (SrcIP r) \<and> IsValid (DstIP r) \<and> SourceID r = u"
    using captured_valid [OF assms(1)] unfolding rows by (auto dest: in_set_takeD)
  have lengths: "\<forall>b \<in> set ?bs. b \<noteq> [] \<and> length b \<le> 500"
    unfolding sent_batches_def using chunks_lengths [where n = 500] by (metis zero_less_numeral)
  have sent: "map Inr (map snd produced) = map (marshal_batch uuid_Marshal) ?bs"
    using unmarshal_marshal(1) [OF fits [OF ok]] by (simp add: produced comp_def)
  have inc: "incoming (live_events (unmarshal_batch uuid_Unmarshal) evs) = ?bs"
    using incoming_live_events [OF assms(6)] unmarshal_marshal(2) [OF fits [OF ok]]
      map_filter_encoded [of ?bs "unmarshal_batch uuid_Unmarshal" ?enc]
    by (simp add: assms(5) produced comp_def)
  from assms(7) have "PacketSaverWorker (pg_CopyFrom inet_in) (\<lambda>f t. onFailure f u)
      (live_events (unmarshal_batch uuid_Unmarshal) evs) new_saver d = (Waiting, w, sl, d')"
    by (simp add: live_saver_is_go_saver)
  from stored_by_saver [OF this] obtain rs where
    "those (map (as_stored inet_in) (concat ?bs)) = Some rs" "packet_logs d' = packet_logs d @ rs" "localSaved w = length rs"
    unfolding inc by blast
  then show ?thesis using sent rows valid lengths by (intro exI [of _ ?bs] exI [of _ rs]) auto
qed

definition stored_packet :: gopacket where
  "stored_packet =
     \<lparr>layerIPv4 = Some \<lparr>Protocol4 = 6, SrcIP4 = [10, 5, 7, 113], DstIP4 = [10, 5, 7, 113]\<rparr>,
      layerIPv6 = None,
      layerTCP = Some \<lparr>TSrcPort = 1, TDstPort = 2, SYN = True, ACK = False, FIN = False,
                       RST = False, PSH = False, URG = False\<rparr>,
      layerUDP = None, ci_Timestamp = 0, ci_Length = 54\<rparr>"

lemma stored_packet_row: "PacketDecoder (\<lambda>_. ''TCP'') sample_job stored_packet = Some sample_stored_row"
  by (simp add: PacketDecoder_def decode_network_def decode_transport_def to_array_def stored_packet_def
      sample_stored_row_def packetFlagsToUint8_def)

definition sample_message :: json where
  "sample_message = JList [encode_Row (\<lambda>_. JNull) sample_stored_row]"

lemma sample_message_reads: "marshal_batch (\<lambda>_. JNull) [sample_stored_row] = Inr sample_message"
  "unmarshal_batch (\<lambda>_. Some sample_job) sample_message = Some [sample_stored_row]"
proof -
  have "year_ok 0" by code_simp
  from decoded_fits [OF stored_packet_row] this
  have "fits_batch (\<lambda>_. JNull) (\<lambda>_. Some sample_job) [sample_stored_row]"
    by (simp add: fits_batch_def stored_packet_def)
  from unmarshal_marshal [OF this] show "marshal_batch (\<lambda>_. JNull) [sample_stored_row] = Inr sample_message"
    "unmarshal_batch (\<lambda>_. Some sample_job) sample_message = Some [sample_stored_row]"
    by (simp_all add: sample_message_def)
qed

lemma captured_packets_are_stored_witness:
  "\<exists>rs. packet_logs (snd (snd (snd (LivePacketSaverWorker (unmarshal_batch (\<lambda>_. Some sample_job))
      (pg_CopyFrom sample_inet_in) (\<lambda>f t. onFailure f sample_job) [ReadError, Message sample_message quick_write]
      new_saver (one_job_db 6))))) = packet_logs (one_job_db 6) @ rs \<and> length rs = 1"
proof -
  let ?es = "[\<lparr>packet = stored_packet, ctx_over = False, kafka_answer = None\<rparr>,
    \<lparr>packet = stored_packet, ctx_over = True, kafka_answer = None\<rparr>]"
  have year: "year_ok (ci_Timestamp stored_packet)" by (simp add: stored_packet_def) code_simp
  have captured: "captured (\<lambda>_. ''TCP'') sample_job ?es = Some [sample_stored_row]"
    by (simp add: stored_packet_row) (simp add: sample_stored_row_def)
  have sent: "ListenOnNetwork (\<lambda>_. ''TCP'') (marshal_batch (\<lambda>_. JNull)) sample_job ''packets'' 500 [] ?es [] =
      Some [(''packets'', sample_message)]"
    by (simp add: stored_packet_row sendBatch_def Let_def sample_message_reads(1)) (simp add: sample_stored_row_def)
  obtain w sl d' where run: "LivePacketSaverWorker (unmarshal_batch (\<lambda>_. Some sample_job)) (pg_CopyFrom sample_inet_in)
      (\<lambda>f t. onFailure f sample_job) [ReadError, Message sample_message quick_write] new_saver
      (one_job_db 6) = (Waiting, w, sl, d')"
    by (simp add: quick_write_def sample_copy Let_def throttle_def baseBackoffThreshold_def sample_message_reads(2))
  have es: "\<forall>e \<in> set ?es. kafka_answer e = None \<and> year_ok (ci_Timestamp (packet e))" using year by simp
  have uuid: "(\<lambda>_. Some sample_job) ((\<lambda>_. JNull) sample_job) = Some sample_job" by simp
  have msgs: "messages [ReadError, Message sample_message quick_write] = map snd [(''packets'', sample_message)]"
    "LiveCtxDone \<notin> set [ReadError, Message sample_message quick_write]" by simp_all
  obtain bs rs where bs: "concat bs = (if list_ex ctx_over ?es then [sample_stored_row]
      else take (length [sample_stored_row] div 500 * 500) [sample_stored_row])"
    and "those (map (as_stored sample_inet_in) (concat bs)) = Some rs"
    "packet_logs d' = packet_logs (one_job_db 6) @ rs"
    using captured_packets_are_stored [OF captured es uuid sent msgs run] by blast
  moreover from this(2) have "length rs = length (concat bs)" using those_length by fastforce
  moreover have "length (concat bs) = 1" using bs by simp
  ultimately show ?thesis unfolding run by simp
qed

end
