(* ===== verification/Capture.thy ===== *)
theory Capture
  imports Listener
begin

text \<open>
  live-sniffer's data path with all its sessions: the goroutines of \<open>Launcher\<close> together with the
  rows they carry and the one Kafka topic they share. Every listener produces to the topic and
  every saver of every session consumes from it as a member of the one group \<open>packet-savers\<close>, so a
  message goes to any saver that is waiting. The steps move data; all other steps are those of
  \<open>pipeline_step\<close>, and every step here is one of them or leaves its state alone.
\<close>

section \<open>State\<close>

record capture_env =
  text_of :: "UUID \<Rightarrow> string"
  id_of :: "string \<Rightarrow> string + UUID"
  inet_in :: "string \<Rightarrow> Addr option"
  proto_name :: "8 word \<Rightarrow> string"
  to_json :: "UUID \<Rightarrow> json"
  from_json :: "json \<Rightarrow> UUID option"
  topic_name :: string

text \<open>
  \<open>cargo\<close> has an entry for every goroutine: the batch of a listener, the message a saver has
  read and not yet written, and nothing for the others. \<open>polling\<close> has the savers that have found
  their context alive and wait in \<open>ReadMessage\<close>: a stop that comes meanwhile does not interrupt
  them. The last three fields are history: the rows that were decoded and had addresses, those
  whose batch reached the table and those that were dropped.
\<close>

record Capture =
  live :: Launcher
  cargo :: "PacketRow list list"
  topic :: "(string \<times> json) list"
  polling :: "nat set"
  captured_rows :: "PacketRow list"
  stored_rows :: "PacketRow list"
  lost_rows :: "PacketRow list"


fun carries :: "goroutine \<Rightarrow> bool" where
  "carries (SaverLoop c u) = True"
| "carries (Listening c u) = True"
| "carries _ = False"

definition keeps_data :: "Launcher \<Rightarrow> Launcher \<Rightarrow> bool" where
  "keeps_data l l' \<longleftrightarrow> packet_logs (DB l') = packet_logs (DB l) \<and> length (goroutines l) \<le> length (goroutines l') \<and>
     (\<forall>i < length (goroutines l). carries (goroutines l ! i) \<longrightarrow> goroutines l' ! i = goroutines l ! i)"

definition load :: "nat \<Rightarrow> PacketRow list \<Rightarrow> Capture \<Rightarrow> Capture" where
  "load i rows s = s\<lparr>cargo := (cargo s)[i := rows]\<rparr>"

text \<open>A listener sends what it has; an error is logged and the batch is gone.\<close>

definition send :: "capture_env \<Rightarrow> string option \<Rightarrow> PacketRow list \<Rightarrow> Capture \<Rightarrow> Capture" where
  "send env answer batch s =
     (case sendBatch (marshal_batch (to_json env)) answer (topic_name env) batch (topic s) of
        (None, t) \<Rightarrow> s\<lparr>topic := t\<rparr>
      | (Some e, t) \<Rightarrow> s\<lparr>topic := t, lost_rows := lost_rows s @ batch\<rparr>)"

section \<open>Steps\<close>

abbreviation at :: "Capture \<Rightarrow> nat \<Rightarrow> goroutine \<Rightarrow> bool" where
  "at s i g \<equiv> i < length (goroutines (live s)) \<and> goroutines (live s) ! i = g"

text \<open>\<open>ListenOnNetwork\<close>: one packet with the check of the context before it, or the end of the packets.\<close>

inductive listen_step :: "capture_env \<Rightarrow> Capture \<Rightarrow> Capture \<Rightarrow> bool" for env :: capture_env where
  listen_ignores:
    "at s i (Listening c u) \<Longrightarrow> \<not> ctx_done (live s) c \<Longrightarrow> PacketDecoder (proto_name env) u p = Some row \<Longrightarrow>
     \<not> IsValid (SrcIP row) \<or> \<not> IsValid (DstIP row) \<Longrightarrow>
     listen_step env s s"
| listen_packet:
    "at s i (Listening c u) \<Longrightarrow> \<not> ctx_done (live s) c \<Longrightarrow> PacketDecoder (proto_name env) u p = Some row \<Longrightarrow>
     IsValid (SrcIP row) \<Longrightarrow> IsValid (DstIP row) \<Longrightarrow> batch = cargo s ! i @ [row] \<Longrightarrow> length batch < 500 \<Longrightarrow>
     listen_step env s (load i batch (s\<lparr>captured_rows := captured_rows s @ [row]\<rparr>))"
| listen_batch:
    "at s i (Listening c u) \<Longrightarrow> \<not> ctx_done (live s) c \<Longrightarrow> PacketDecoder (proto_name env) u p = Some row \<Longrightarrow>
     IsValid (SrcIP row) \<Longrightarrow> IsValid (DstIP row) \<Longrightarrow> batch = cargo s ! i @ [row] \<Longrightarrow> 500 \<le> length batch \<Longrightarrow>
     listen_step env s (send env answer batch (load i [] (s\<lparr>captured_rows := captured_rows s @ [row]\<rparr>)))"
| listen_flush:
    "at s i (Listening c u) \<Longrightarrow> ctx_done (live s) c \<Longrightarrow> batch = cargo s ! i \<Longrightarrow>
     s' = load i [] (s\<lparr>live := becomes i Returned (live s)\<rparr>) \<Longrightarrow>
     listen_step env s (if 0 < length batch then send env answer batch s' else s')"
| listen_ends:
    "at s i (Listening c u) \<Longrightarrow>
     listen_step env s (load i [] (s\<lparr>live := becomes i Returned (live s), lost_rows := lost_rows s @ cargo s ! i\<rparr>))"

text \<open>\<open>PacketSaverWorker\<close>: the check of the context, the read, and the write.\<close>

inductive save_step :: "capture_env \<Rightarrow> Capture \<Rightarrow> Capture \<Rightarrow> bool" for env :: capture_env where
  save_polls:
    "at s i (SaverLoop c u) \<Longrightarrow> cargo s ! i = [] \<Longrightarrow> i \<notin> polling s \<Longrightarrow> \<not> ctx_done (live s) c \<Longrightarrow>
     save_step env s (s\<lparr>polling := insert i (polling s)\<rparr>)"
| save_times_out:
    "i \<in> polling s \<Longrightarrow> save_step env s (s\<lparr>polling := polling s - {i}\<rparr>)"
| save_reads:
    "at s i (SaverLoop c u) \<Longrightarrow> i \<in> polling s \<Longrightarrow> topic s = t1 @ (n, m) # t2 \<Longrightarrow>
     unmarshal_batch (from_json env) m = Some batch \<Longrightarrow>
     save_step env s (load i batch (s\<lparr>topic := t1 @ t2, polling := polling s - {i}\<rparr>))"
| save_skips:
    "at s i (SaverLoop c u) \<Longrightarrow> i \<in> polling s \<Longrightarrow> topic s = t1 @ (n, m) # t2 \<Longrightarrow>
     unmarshal_batch (from_json env) m = None \<Longrightarrow>
     save_step env s (s\<lparr>topic := t1 @ t2, polling := polling s - {i}\<rparr>)"
| save_writes:
    "at s i (SaverLoop c u) \<Longrightarrow> i \<notin> polling s \<Longrightarrow> batch = cargo s ! i \<Longrightarrow>
     ctx_done (live s) c \<longrightarrow> \<not> reached f \<Longrightarrow>
     BulkDatabaseCopy (pg_CopyFrom (inet_in env) f) batch (DB (live s)) = (None, d) \<Longrightarrow>
     save_step env s (load i [] (s\<lparr>live := (live s)\<lparr>DB := d\<rparr>, stored_rows := stored_rows s @ batch\<rparr>))"
| save_fails:
    "at s i (SaverLoop c u) \<Longrightarrow> i \<notin> polling s \<Longrightarrow> batch = cargo s ! i \<Longrightarrow>
     ctx_done (live s) c \<longrightarrow> \<not> reached f \<Longrightarrow>
     BulkDatabaseCopy (pg_CopyFrom (inet_in env) f) batch (DB (live s)) = (Some e, d) \<Longrightarrow>
     s' = load i [] (s\<lparr>live := becomes i (SaverFailed c u) ((live s)\<lparr>DB := d\<rparr>)\<rparr>) \<Longrightarrow>
     save_step env s
       (if packet_logs d = packet_logs (DB (live s)) then s'\<lparr>lost_rows := lost_rows s @ batch\<rparr>
        else s'\<lparr>stored_rows := stored_rows s @ batch\<rparr>)"
| save_leaves:
    "at s i (SaverLoop c u) \<Longrightarrow> i \<notin> polling s \<Longrightarrow> cargo s ! i = [] \<Longrightarrow> ctx_done (live s) c \<Longrightarrow>
     save_step env s (s\<lparr>live := becomes i Returned (live s)\<rparr>)"

inductive capture_step :: "capture_env \<Rightarrow> Capture \<Rightarrow> Capture \<Rightarrow> bool" for env :: capture_env where
  control:
    "pipeline_step (text_of env) (id_of env) (inet_in env) (live s) l \<Longrightarrow> keeps_data (live s) l \<Longrightarrow>
     capture_step env s (s\<lparr>live := l,
       cargo := cargo s @ replicate (length (goroutines l) - length (goroutines (live s))) []\<rparr>)"
| listens: "listen_step env s s' \<Longrightarrow> capture_step env s s'"
| saves: "save_step env s s' \<Longrightarrow> capture_step env s s'"


section \<open>The steps refine the launcher's\<close>

lemma send_live [simp]: "live (send env a b s) = live s"
  by (simp add: send_def split: prod.split option.split)

lemma load_simps [simp]:
  "live (load i b s) = live s" "cargo (load i b s) = (cargo s)[i := b]" "topic (load i b s) = topic s"
  "polling (load i b s) = polling s" "captured_rows (load i b s) = captured_rows s" "stored_rows (load i b s) = stored_rows s"
  "lost_rows (load i b s) = lost_rows s"
  by (simp_all add: load_def)





section \<open>Sessions have valid identifiers\<close>





section \<open>Where every row is\<close>

text \<open>What the topic holds, read as the savers read it.\<close>

definition message_rows :: "capture_env \<Rightarrow> string \<times> json \<Rightarrow> PacketRow multiset" where
  "message_rows env x = mset (case unmarshal_batch (from_json env) (snd x) of None \<Rightarrow> [] | Some b \<Rightarrow> b)"

definition topic_rows :: "capture_env \<Rightarrow> (string \<times> json) list \<Rightarrow> PacketRow multiset" where
  "topic_rows env t = sum_list (map (message_rows env) t)"

definition row_fits :: "capture_env \<Rightarrow> PacketRow \<Rightarrow> bool" where
  "row_fits env r \<longleftrightarrow> Addr_ok (SrcIP r) \<and> Addr_ok (DstIP r) \<and> from_json env (to_json env (SourceID r)) = Some (SourceID r)"

text \<open>Only listeners and savers carry rows, and a listener's rows can be written as JSON.\<close>

definition entry_ok :: "capture_env \<Rightarrow> goroutine \<Rightarrow> PacketRow list \<Rightarrow> bool" where
  "entry_ok env g rows \<longleftrightarrow>
     (carries g \<or> rows = []) \<and> ((\<exists>c u. g = Listening c u) \<longrightarrow> list_all (row_fits env) rows)"

definition inv_cargo :: "capture_env \<Rightarrow> Capture \<Rightarrow> bool" where
  "inv_cargo env s \<longleftrightarrow> list_all2 (entry_ok env) (goroutines (live s)) (cargo s)"


lemma topic_rows_simps [simp]:
  "topic_rows env [] = {#}" "topic_rows env (t1 @ t2) = topic_rows env t1 + topic_rows env t2"
  "topic_rows env (x # t2) = message_rows env x + topic_rows env t2"
  by (simp_all add: topic_rows_def)


lemma becomes_simps [simp]:
  "goroutines (becomes i g l) = (goroutines l)[i := g]" "DB (becomes i g l) = DB l"
  by (simp_all add: becomes_def)


lemma entry_empty [simp]: "entry_ok env g []"
  by (simp add: entry_ok_def)





lemma inv_cargo_send [simp]: "inv_cargo env (send env a b s) = inv_cargo env s"
  by (auto simp: inv_cargo_def send_def split: prod.split option.split)








section \<open>Conservation\<close>



















section \<open>After a stop\<close>










section \<open>A failing saver\<close>

lemma failed_write: "b \<noteq> [] \<Longrightarrow> BulkDatabaseCopy (pg_CopyFrom inet (FailBefore e)) b d = (Some (ConnError e), d)"
  by (simp add: BulkDatabaseCopy_def pg_CopyFrom_def run_stmt_def)

lemma control_only:
  assumes "pipeline_step (text_of env) (id_of env) (inet_in env) (live s) l" "keeps_data (live s) l"
    and "length (goroutines l) = length (goroutines (live s))"
  shows "capture_step env s (s\<lparr>live := l\<rparr>)"
  using capture_step.control [OF assms(1,2)] assms(3) by (cases s) simp

lemma three_steps: "capture_step env a b \<Longrightarrow> capture_step env b c \<Longrightarrow> capture_step env c d \<Longrightarrow> (capture_step env)\<^sup>*\<^sup>* a d"
  by (meson r_into_rtranclp rtranclp_trans)

lemma saver_failure_steps:
  assumes "at s i (SaverLoop c u)" "cargo s ! i = b" "b \<noteq> []" "\<not> ctx_done (live s) c" "i \<notin> polling s"
  shows "(capture_step env)\<^sup>*\<^sup>* s (s\<lparr>
      live := cancel_ctx c (becomes i Returned ((live s)\<lparr>DB := onFailure NoFault u (DB (live s))\<rparr>)),
      cargo := (cargo s)[i := []], lost_rows := lost_rows s @ b\<rparr>)"
proof -
  let ?l1 = "becomes i (SaverFailed c u) (live s)"
  let ?l2 = "becomes i (SaverReported c u) (?l1\<lparr>DB := onFailure NoFault u (DB (live s))\<rparr>)"
  let ?l3 = "becomes i Returned (cancel_ctx c ?l2)"
  let ?s1 = "s\<lparr>live := ?l1, cargo := (cargo s)[i := []], lost_rows := lost_rows s @ b\<rparr>"
  have len: "i < length (goroutines (live s))" using assms(1) by simp
  have 1: "capture_step env s ?s1"
    using save_step.save_fails [where env = env and f = "FailBefore []", OF assms(1,5) assms(2) [symmetric] _
        failed_write [OF assms(3)] refl]
    by (intro capture_step.saves) (simp add: load_def reached_def)
  have 2: "capture_step env ?s1 (?s1\<lparr>live := ?l2\<rparr>)"
  proof (rule control_only)
    show "pipeline_step (text_of env) (id_of env) (inet_in env) (live ?s1) ?l2"
      using pipeline_step.saver_reports [of i "live ?s1" c u NoFault] assms(1,4) by (simp add: ctx_done_def becomes_def)
    show "keeps_data (live ?s1) ?l2" using len by (auto simp: keeps_data_def onFailure_packets nth_list_update)
  qed simp
  have 3: "capture_step env (?s1\<lparr>live := ?l2\<rparr>) (?s1\<lparr>live := ?l2\<rparr>\<lparr>live := ?l3\<rparr>)"
  proof (rule control_only)
    show "pipeline_step (text_of env) (id_of env) (inet_in env) (live (?s1\<lparr>live := ?l2\<rparr>)) ?l3"
      using pipeline_step.saver_cancels [of i ?l2 c u] len by simp
    show "keeps_data (live (?s1\<lparr>live := ?l2\<rparr>)) ?l3"
      using len by (auto simp: keeps_data_def nth_list_update cancel_ctx_def)
  qed (simp add: cancel_ctx_def)
  have "(capture_step env)\<^sup>*\<^sup>* s (?s1\<lparr>live := ?l2\<rparr>\<lparr>live := ?l3\<rparr>)"
    by (rule three_steps [OF 1 2 3])
  moreover have "?l3 = cancel_ctx c (becomes i Returned ((live s)\<lparr>DB := onFailure NoFault u (DB (live s))\<rparr>))"
    by (simp add: becomes_def cancel_ctx_def)
  ultimately show ?thesis by (cases s) simp
qed

section \<open>Properties\<close>



text \<open>
  C14: A failing session loses other sessions' packets: all savers belong to one consumer group, so
  a saver of one capture can take a message of any other; if its write fails the rows of the message
  are gone, while only the saver's own session is marked crashed and only its context cancelled: the
  session whose packets were lost keeps its status and its listener.
\<close>

theorem failure_loses_other_sessions_rows:
  assumes "at s i (SaverLoop c u)" "i \<in> polling s" "\<not> ctx_done (live s) c" "i < length (cargo s)" "0 < c"
    and "topic s = t1 @ (n, m) # t2" "unmarshal_batch (from_json env) m = Some b" "b \<noteq> []"
    and "session_map (DB (live s)) u = Some row" "Valid u" "5 \<le> schema (DB (live s))"
  shows "\<exists>s'. (capture_step env)\<^sup>*\<^sup>* s s' \<and> topic s' = t1 @ t2 \<and> lost_rows s' = lost_rows s @ b \<and>
    packet_logs (DB (live s')) = packet_logs (DB (live s)) \<and>
    session_map (DB (live s')) = (session_map (DB (live s)))(u \<mapsto> row\<lparr>session_status := StatusCrashed\<rparr>) \<and>
    (\<forall>c'. ctx_done (live s') c' \<longleftrightarrow> c' = c \<or> ctx_done (live s) c') \<and>
    (\<forall>j g. j \<noteq> i \<longrightarrow> at s j g \<longrightarrow> at s' j g)"
proof -
  let ?s1 = "load i b (s\<lparr>topic := t1 @ t2, polling := polling s - {i}\<rparr>)" and ?d = "onFailure NoFault u (DB (live s))"
  let ?s2 = "?s1\<lparr>live := cancel_ctx c (becomes i Returned ((live s)\<lparr>DB := ?d\<rparr>)),
    cargo := (cargo ?s1)[i := []], lost_rows := lost_rows s @ b\<rparr>"
  have "capture_step env s ?s1" by (rule capture_step.saves [OF save_step.save_reads [OF assms(1,2,6,7)]])
  moreover have "(capture_step env)\<^sup>*\<^sup>* ?s1 ?s2"
    using saver_failure_steps [where s = ?s1 and i = i and b = b and env = env] assms(1,3,4,8) by simp
  ultimately have "(capture_step env)\<^sup>*\<^sup>* s ?s2" by (rule converse_rtranclp_into_rtranclp)
  moreover have "session_map ?d = (session_map (DB (live s)))(u \<mapsto> row\<lparr>session_status := StatusCrashed\<rparr>)"
    using assms(9-11) by (auto simp: onFailure_def session_update_other reached_def fun_eq_iff)
  moreover have "ctx_done (live ?s2) c' \<longleftrightarrow> c' = c \<or> ctx_done (live s) c'" for c'
    using assms(5) by (auto simp: ctx_done_def cancel_ctx_def becomes_def)
  ultimately show ?thesis
    by (intro exI [of _ ?s2]) (auto simp: onFailure_packets cancel_ctx_def)
qed

section \<open>A sample run\<close>

definition capture_sample :: capture_env where
  "capture_sample = \<lparr>text_of = raw_String, id_of = raw_Scan, inet_in = sample_inet_in, proto_name = (\<lambda>_. ''TCP''),
     to_json = (\<lambda>u. JStr (raw_String u)),
     from_json = (\<lambda>v. case v of JStr s \<Rightarrow> Some \<lparr>UBytes = map (\<lambda>c. of_nat (of_char c)) s, Valid = True\<rparr> | _ \<Rightarrow> None),
     topic_name = ''packets''\<rparr>"

lemma capture_sample_json: "Valid u \<Longrightarrow> from_json capture_sample (to_json capture_sample u) = Some u"
proof -
  assume "Valid u"
  have "(of_nat (of_char (char_of (unat b) :: char)) :: 8 word) = b" for b :: "8 word"
  proof -
    have "unat b < 256" using unsigned_less [of b] by simp
    then show ?thesis by simp
  qed
  then have "map ((\<lambda>c. of_nat (of_char c)) \<circ> (\<lambda>b. char_of (unat b))) (UBytes u) = UBytes u"
    by (simp add: comp_def)
  then show ?thesis using \<open>Valid u\<close> by (cases u) (simp add: capture_sample_def raw_String_def)
qed


lemma sample_packet_row:
  "PacketDecoder (\<lambda>_. ''TCP'') u stored_packet = Some (sample_stored_row\<lparr>SourceID := u\<rparr>)"
  by (simp add: PacketDecoder_def decode_network_def decode_transport_def to_array_def stored_packet_def
      sample_stored_row_def packetFlagsToUint8_def)

lemma capture_sample_fields [simp]:
  "text_of capture_sample = raw_String" "id_of capture_sample = raw_Scan" "inet_in capture_sample = sample_inet_in"
  "proto_name capture_sample = (\<lambda>_. ''TCP'')" "topic_name capture_sample = ''packets''"
  by (simp_all add: capture_sample_def)









text \<open>Two captures; a saver of the stopped one's interface takes a message of the other.\<close>

definition two_captures :: "json \<Rightarrow> Capture" where
  "two_captures m = \<lparr>live = (new_launcher stopped_db)\<lparr>made := 2, goroutines := [SaverLoop 1 sample_job, Listening 2 other_id]\<rparr>,
     cargo = [[], []], topic = [(''packets'', m)], polling = {0}, captured_rows = [sample_stored_row\<lparr>SourceID := other_id\<rparr>],
     stored_rows = [], lost_rows = []\<rparr>"

lemma failure_loses_other_sessions_rows_witness:
  "\<exists>m s'. (capture_step capture_sample)\<^sup>*\<^sup>* (two_captures m) s' \<and>
     lost_rows s' = [sample_stored_row\<lparr>SourceID := other_id\<rparr>] \<and> sample_job \<noteq> other_id"
proof -
  let ?row = "sample_stored_row\<lparr>SourceID := other_id\<rparr>"
  have valid: "Valid other_id" "Valid sample_job" by (simp_all add: other_id_def sample_job_def)
  have "year_ok 0" by code_simp
  then have "fits_batch (to_json capture_sample) (from_json capture_sample) [?row]"
    using decoded_fits [OF sample_packet_row, of other_id] capture_sample_json [OF valid(1)]
    by (simp add: fits_batch_def stored_packet_def)
  then obtain m where m: "unmarshal_batch (from_json capture_sample) m = Some [?row]"
    using unmarshal_marshal by blast
  obtain row where "session_map stopped_db sample_job = Some row"
    by (simp add: session_map_def stopped_db_def empty_db_def sample_job_def)
  then have "\<exists>s'. (capture_step capture_sample)\<^sup>*\<^sup>* (two_captures m) s' \<and> lost_rows s' = lost_rows (two_captures m) @ [?row]"
    using failure_loses_other_sessions_rows [where s = "two_captures m" and i = 0 and c = 1 and u = sample_job and env = capture_sample
      and ?t1.0 = "[]" and ?t2.0 = "[]" and n = "''packets''" and m = m and b = "[?row]" and row = row] m valid(2)
    by (auto simp: two_captures_def ctx_done_def new_launcher_def stopped_db_def empty_db_def)
  then show ?thesis by (auto simp: two_captures_def sample_job_def other_id_def)
qed

end
