(* ===== verification/Daemon.thy ===== *)
theory Daemon
  imports Launcher
begin

text \<open>
  The daemon of live-sniffer and its client: \<open>live-sniffer/internal/daemon/daemon.go\<close> and
  \<open>client.go\<close>. A request is answered by \<open>handleRequest\<close> on the launcher; a connection carries one
  JSON value each way.
\<close>

section \<open>One request\<close>

text \<open>What the outside answers while a request is served.\<close>

record request_env =
  start_answers :: start_env
  stop_fault :: fault
  range_order :: "string list"
  stop_all_faults :: "string \<Rightarrow> fault"
  list_fault :: fault
  delivered :: "SessionRow list \<Rightarrow> SessionRow rows"

text \<open>The text of an error; the database's own texts are a parameter.\<close>

fun start_error_text :: "(db_error \<Rightarrow> string) \<Rightarrow> start_error \<Rightarrow> string" where
  "start_error_text db_text (WorkerCount n) = ''worker count must be between 1 and 10, got '' @ Itoa n"
| "start_error_text db_text (ProducerError e) = e"
| "start_error_text db_text (ListenerError e) = e"
| "start_error_text db_text (SessionError e) = db_text e"
| "start_error_text db_text (ConsumerError e) = e"

definition list_sessions :: "request_env \<Rightarrow> db \<Rightarrow> db_error + SessionRow rows" where
  "list_sessions env d = map_sum id (delivered env) (GetSessions (list_fault env) d)"

definition handleRequest ::
  "(UUID \<Rightarrow> string) \<Rightarrow> (string \<Rightarrow> string + UUID) \<Rightarrow> (db_error \<Rightarrow> string) \<Rightarrow> (nanos \<Rightarrow> int) \<Rightarrow> request_env \<Rightarrow>
   Request \<Rightarrow> Launcher \<Rightarrow> Response \<times> Launcher"
where
  "handleRequest uuid_String uuid_Scan db_text zone env req l =
     (if Command req = CmdStart then
        (case StartPipeline uuid_String (start_answers env) (Interface req) (Workers req) l of
           ((_, Some e), l') \<Rightarrow> (no_response\<lparr>OK := False, Error := start_error_text db_text e\<rparr>, l')
         | ((sid, None), l') \<Rightarrow> (no_response\<lparr>OK := True, rSessionID := sid\<rparr>, l'))
      else if Command req = CmdStop then
        (case StopPipeline uuid_Scan (stop_fault env) (SessionID req) l of
           (Some e, l') \<Rightarrow> (no_response\<lparr>OK := False, Error := e\<rparr>, l')
         | (None, l') \<Rightarrow> (no_response\<lparr>OK := True, rSessionID := SessionID req\<rparr>, l'))
      else if Command req = CmdShutdown then
        (no_response\<lparr>OK := True\<rparr>,
         cancel_ctx 0 (StopAll uuid_Scan (stop_all_faults env) (range_order env) l))
      else if Command req = CmdStatus then
        (case ViewPipelines uuid_String zone (list_sessions env (DB l)) of
           (_, Some e) \<Rightarrow> (no_response\<lparr>OK := False, Error := db_text e\<rparr>, l)
         | (p, None) \<Rightarrow> (no_response\<lparr>OK := True, rSessions := p\<rparr>, l))
      else (no_response, l))"

section \<open>One connection\<close>



section \<open>The accept loop\<close>

text \<open>
  Each accepted connection is handled by a goroutine of its own; an error ends the loop only when
  the context is done.
\<close>

datatype 'c accept = Conn 'c | AcceptError bool \<comment> \<open>with whether the context is done\<close>

fun accept_loop :: "'c accept list \<Rightarrow> 'c list \<times> bool" where
  "accept_loop [] = ([], False)"
| "accept_loop (Conn c # as) = (let (cs, returned) = accept_loop as in (c # cs, returned))"
| "accept_loop (AcceptError True # as) = ([], True)"
| "accept_loop (AcceptError False # as) = accept_loop as"

definition Start :: "string option \<Rightarrow> 'c accept list \<Rightarrow> string option \<times> 'c list \<times> bool" where
  "Start listenErr as = (case listenErr of Some e \<Rightarrow> (Some e, [], True) | None \<Rightarrow> (None, accept_loop as))"

section \<open>Stopping everything\<close>

lemma StopPipeline_effect:
  assumes "uuid_Scan s = Inr v" "Valid v" "5 \<le> schema (DB l)" "reached f"
  shows "Cancels (snd (StopPipeline uuid_Scan f s l)) = (Cancels l)(s := None)"
    and "ended (snd (StopPipeline uuid_Scan f s l)) = ended l \<union> {c. Cancels l s = Some c}"
    and "session_map (DB (snd (StopPipeline uuid_Scan f s l))) =
      (session_map (DB l))(v := map_option (\<lambda>r. r\<lparr>session_status := StatusFinish\<rparr>) (session_map (DB l) v))"
    and "schema (DB (snd (StopPipeline uuid_Scan f s l))) = schema (DB l)"
    and "goroutines (snd (StopPipeline uuid_Scan f s l)) = goroutines l"
    and "made (snd (StopPipeline uuid_Scan f s l)) = made l"
  using assms
  by (auto simp: StopPipeline_def stop_end_def unregister_def cancel_ctx_def session_update_other
      UpdateSession_schema fun_eq_iff split: option.split)

lemma StopAll_effect:
  assumes "\<forall>u. Valid u \<longrightarrow> uuid_Scan (uuid_String u) = Inr u" "\<forall>s. reached (f s)"
    and "set ids \<subseteq> uuid_String ` Collect Valid" "5 \<le> schema (DB l)"
  shows "Cancels (StopAll uuid_Scan f ids l) = Cancels l |` (- set ids) \<and>
    ended (StopAll uuid_Scan f ids l) = ended l \<union> {c. \<exists>s \<in> set ids. Cancels l s = Some c} \<and>
    goroutines (StopAll uuid_Scan f ids l) = goroutines l \<and> made (StopAll uuid_Scan f ids l) = made l \<and>
    (\<forall>u. session_map (DB (StopAll uuid_Scan f ids l)) u =
       (if Valid u \<and> uuid_String u \<in> set ids
        then map_option (\<lambda>r. r\<lparr>session_status := StatusFinish\<rparr>) (session_map (DB l) u)
        else session_map (DB l) u))"
  using assms(3,4)
proof (induction ids arbitrary: l)
  case Nil
  then show ?case by (simp add: StopAll_def)
next
  case (Cons s ids)
  from Cons.prems obtain v where v: "s = uuid_String v" "Valid v" by auto
  let ?l1 = "snd (StopPipeline uuid_Scan (f s) s l)"
  have scan: "uuid_Scan s = Inr v" using v assms(1) by simp
  have reach: "reached (f s)" using assms(2) by simp
  note stop = StopPipeline_effect [where uuid_Scan = uuid_Scan and s = s and f = "f s",
      OF scan v(2) Cons.prems(2) reach]
  have inj: "u = v" if "Valid u" "uuid_String u = s" for u using that v assms(1) by (metis sum.inject(2))
  have all: "StopAll uuid_Scan f (s # ids) l = StopAll uuid_Scan f ids ?l1" by (simp add: StopAll_def)
  have "set ids \<subseteq> uuid_String ` Collect Valid" "5 \<le> schema (DB ?l1)"
    using Cons.prems stop(4) by auto
  note IH = Cons.IH [OF this]
  note c = conjunct1 [OF IH] and e = conjunct1 [OF conjunct2 [OF IH]]
    and gm = conjunct2 [OF conjunct2 [OF IH]]
  have "Cancels (StopAll uuid_Scan f ids ?l1) = Cancels l |` (- set (s # ids))"
    unfolding c stop(1) by (auto simp: restrict_map_def fun_eq_iff)
  moreover have "ended (StopAll uuid_Scan f ids ?l1) = ended l \<union> {c. \<exists>t \<in> set (s # ids). Cancels l t = Some c}"
    unfolding e stop(1,2) by (auto split: if_splits)
  moreover have "session_map (DB (StopAll uuid_Scan f ids ?l1)) u =
      (if Valid u \<and> uuid_String u \<in> set (s # ids)
       then map_option (\<lambda>r. r\<lparr>session_status := StatusFinish\<rparr>) (session_map (DB l) u)
       else session_map (DB l) u)" for u
  proof -
    have m: "session_map (DB (StopAll uuid_Scan f ids ?l1)) u =
        (if Valid u \<and> uuid_String u \<in> set ids
         then map_option (\<lambda>r. r\<lparr>session_status := StatusFinish\<rparr>) (session_map (DB ?l1) u)
         else session_map (DB ?l1) u)" using gm by blast
    show ?thesis
    proof (cases "u = v")
      case True
      then show ?thesis unfolding m stop(3) using v by (simp add: option.map_comp comp_def)
    next
      case False
      then have "Valid u \<Longrightarrow> uuid_String u \<noteq> s" using inj by blast
      then show ?thesis unfolding m stop(3) using False by auto
    qed
  qed
  ultimately show ?case unfolding all using gm unfolding stop(5,6) by simp
qed

section \<open>Properties\<close>

text \<open>
  C16: A shutdown request stops everything: in every state the daemon can reach, if its updates get
  through, then in whatever order the range over the map gives the keys, the answer is OK, no
  pipeline stays registered, every context is done, so no saver goes on, and exactly the sessions
  that were registered get the status 'finished'; all other rows stay as they are.
\<close>

theorem shutdown_stops_everything:
  assumes "store_inv d" "(pipeline_step uuid_String uuid_Scan inet_in)\<^sup>*\<^sup>* (new_launcher d) l"
    and "\<forall>u. Valid u \<longrightarrow> uuid_Scan (uuid_String u) = Inr u" "\<forall>s. reached (stop_all_faults env s)"
    and "set (range_order env) = dom (Cancels l)" "Command req = CmdShutdown"
  shows "case handleRequest uuid_String uuid_Scan db_text zone env req l of (resp, l') \<Rightarrow>
    resp = \<lparr>OK = True, Error = [], rSessionID = [], rSessions = []\<rparr> \<and>
    Cancels l' = Map.empty \<and> (\<forall>c. ctx_done l' c) \<and> ran (Cancels l) \<subseteq> ended l' \<and>
    (\<forall>u. session_map (DB l') u =
       (if Valid u \<and> uuid_String u \<in> dom (Cancels l)
        then map_option (\<lambda>r. r\<lparr>session_status := StatusFinish\<rparr>) (session_map (DB l) u)
        else session_map (DB l) u))"
proof -
  have "launcher_inv uuid_String (new_launcher d)"
    using assms(1) by (simp add: launcher_inv_def new_launcher_def)
  then have inv: "launcher_inv uuid_String l" by (rule launcher_steps_inv [OF assms(2)])
  have keys: "set (range_order env) \<subseteq> uuid_String ` Collect Valid" "5 \<le> schema (DB l)"
    using inv assms(5) by (fastforce simp: launcher_inv_def store_inv_def)+
  note all = StopAll_effect [OF assms(3,4) keys]
  have "handleRequest uuid_String uuid_Scan db_text zone env req l =
      (no_response\<lparr>OK := True\<rparr>, cancel_ctx 0 (StopAll uuid_Scan (stop_all_faults env) (range_order env) l))"
    using assms(6) by (simp add: handleRequest_def commands)
  then show ?thesis
    using all assms(5)
    by (auto simp: no_response_def cancel_ctx_def ctx_done_def restrict_map_def fun_eq_iff ran_def dom_def)
qed


section \<open>Sample requests\<close>

definition sample_env :: request_env where
  "sample_env = \<lparr>start_answers = quick_start, stop_fault = NoFault, range_order = [raw_String other_id],
     stop_all_faults = (\<lambda>_. NoFault), list_fault = NoFault, delivered = all_rows\<rparr>"

definition started :: Launcher where
  "started = go (Starting 1 other_id [1..2]) (snd (start_begin raw_String quick_start ''eth0'' 2 (new_launcher stopped_db)))"

lemma started_begin:
  "start_begin raw_String quick_start ''eth0'' 2 (new_launcher stopped_db) =
     (Inr (other_id, 1), snd (start_begin raw_String quick_start ''eth0'' 2 (new_launcher stopped_db)))"
  by (simp add: start_begin_def quick_start_def new_launcher_def stopped_db_def StartSession_def
        run_stmt_def resume_stmt_def insert_session_stmt_def empty_db_def resumable_def statuses Let_def
        sample_job_def other_id_def uuid_eq_def)

lemma started_registered: "Cancels started = [raw_String other_id \<mapsto> 1]"
  using start_begin_Inr [OF started_begin] by (auto simp: started_def go_def new_launcher_def)

lemma shutdown_stops_everything_witness:
  "Cancels (snd (handleRequest raw_String raw_Scan (\<lambda>_. []) (\<lambda>_. 0) sample_env
      (no_request\<lparr>Command := CmdShutdown\<rparr>) started)) = Map.empty"
proof -
  have "pipeline_step raw_String raw_Scan sample_inet_in (new_launcher stopped_db) started"
    unfolding started_def
    by (rule pipeline_step.start_ok [OF started_begin]) (simp add: quick_start_def other_id_def)
  then have steps: "(pipeline_step raw_String raw_Scan sample_inet_in)\<^sup>*\<^sup>* (new_launcher stopped_db) started" by simp
  have scan: "\<forall>u. Valid u \<longrightarrow> raw_Scan (raw_String u) = Inr u"
  proof (intro allI impI)
    fix u :: UUID
    assume "Valid u"
    have "unat b mod 256 = unat b" for b :: "8 word" using unsigned_less [of b, where 'a = nat] by simp
    then have "map (\<lambda>c. of_nat (of_char c) :: 8 word) (raw_String u) = UBytes u"
      by (simp add: raw_String_def comp_def)
    then show "raw_Scan (raw_String u) = Inr u" using \<open>Valid u\<close> by (simp add: raw_Scan_def)
  qed
  show ?thesis
    using shutdown_stops_everything [OF stopped_db_inv steps scan, of sample_env
        "no_request\<lparr>Command := CmdShutdown\<rparr>" "\<lambda>_. []" "\<lambda>_. 0"]
    by (simp add: sample_env_def reached_def started_registered no_request_def split: prod.splits)
qed


end
