(* ===== verification/Nls.thy ===== *)
theory Nls
  imports Daemon GoPath
begin

text \<open>
  The command \<open>nls\<close>: its configuration file, \<open>live-sniffer/internal/config/config.go\<close>, and the
  commands of \<open>live-sniffer/cmd/nls/main.go\<close>. YAML is a pair of parameters, the file system is a map
  from paths to contents with the directories that exist, and each call of it can fail.
\<close>

section \<open>The configuration file\<close>

record C =
  DBUrl :: string
  DefaultInterface :: string

definition no_config :: C where "no_config = \<lparr>DBUrl = [], DefaultInterface = []\<rparr>"

record filesystem =
  files :: "string \<rightharpoonup> string"
  dirs :: "string list"

datatype os_error = NotExist | OsError string

record os_env =
  UserHomeDir :: string \<comment> \<open>empty when it is not known: the error is dropped\<close>
  mkdir_fault :: bool
  read_fault :: "string option"
  write_fault :: "(string \<times> string option) option" \<comment> \<open>the error, and what is left if the file was truncated\<close>

definition SockPath :: "os_env \<Rightarrow> string" where
  "SockPath os = filepath_Join [UserHomeDir os, ''.config'', ''nls'', ''nls.sock'']"

definition configPath :: "os_env \<Rightarrow> string" where
  "configPath os = filepath_Join [UserHomeDir os, ''.config'', ''nls'', ''config.yaml'']"

definition ReadConfig ::
  "(string \<Rightarrow> C \<times> string option) \<Rightarrow> os_env \<Rightarrow> filesystem \<Rightarrow> C \<times> os_error option"
where
  "ReadConfig yaml_Unmarshal os fs =
     (case read_fault os of
        Some e \<Rightarrow> (no_config, Some (OsError e))
      | None \<Rightarrow>
          (case files fs (configPath os) of
             None \<Rightarrow> (no_config, Some NotExist)
           | Some data \<Rightarrow>
               (case yaml_Unmarshal data of
                  (config, Some e) \<Rightarrow> (config, Some (OsError e))
                | (config, None) \<Rightarrow> (config, None))))"

definition MkdirAll :: "os_env \<Rightarrow> string \<Rightarrow> filesystem \<Rightarrow> filesystem" where
  "MkdirAll os dir fs = (if mkdir_fault os then fs else fs\<lparr>dirs := dir # dirs fs\<rparr>)"

definition WriteFile :: "os_env \<Rightarrow> string \<Rightarrow> string \<Rightarrow> filesystem \<Rightarrow> os_error option \<times> filesystem" where
  "WriteFile os path data fs =
     (if filepath_Dir path \<notin> set (dirs fs) then (Some NotExist, fs)
      else
        (case write_fault os of
           None \<Rightarrow> (None, fs\<lparr>files := (files fs)(path \<mapsto> data)\<rparr>)
         | Some (e, None) \<Rightarrow> (Some (OsError e), fs)
         | Some (e, Some partial) \<Rightarrow> (Some (OsError e), fs\<lparr>files := (files fs)(path \<mapsto> partial)\<rparr>)))"

definition SaveConfig ::
  "(string \<Rightarrow> C \<times> string option) \<Rightarrow> (C \<Rightarrow> string + string) \<Rightarrow> os_env \<Rightarrow> string \<Rightarrow> string \<Rightarrow> filesystem \<Rightarrow>
   os_error option \<times> filesystem"
where
  "SaveConfig yaml_Unmarshal yaml_Marshal os dbUrl defaultInterface fs =
     (let fs1 = MkdirAll os (filepath_Dir (configPath os)) fs;
          (currentConfig, err) = ReadConfig yaml_Unmarshal os fs1
      in if err \<noteq> None \<and> err \<noteq> Some NotExist then (err, fs1)
         else
           (case yaml_Marshal (currentConfig\<lparr>DBUrl := dbUrl, DefaultInterface := defaultInterface\<rparr>) of
              Inl e \<Rightarrow> (Some (OsError e), fs1)
            | Inr data \<Rightarrow> WriteFile os (configPath os) data fs1))"

section \<open>The commands\<close>

text \<open>Each \<open>Run\<close> function with its exit status; 0 is a normal return.\<close>

definition configSetCmd ::
  "(string \<Rightarrow> C \<times> string option) \<Rightarrow> (C \<Rightarrow> string + string) \<Rightarrow> os_env \<Rightarrow> (string \<Rightarrow> db_error option) \<Rightarrow>
   string \<Rightarrow> string \<Rightarrow> filesystem \<Rightarrow> db \<Rightarrow> int \<times> filesystem \<times> db"
where
  "configSetCmd yaml_Unmarshal yaml_Marshal os connect key val fs d =
     (let (cfg, err) = ReadConfig yaml_Unmarshal os fs in
      if err \<noteq> None \<and> err \<noteq> Some NotExist then (1, fs, d)
      else
        (let save = (\<lambda>cfg d. case SaveConfig yaml_Unmarshal yaml_Marshal os (DBUrl cfg) (DefaultInterface cfg) fs of
                       (Some e, fs') \<Rightarrow> (1, fs', d) | (None, fs') \<Rightarrow> (0, fs', d)) in
         if key = ''db-url'' then
           (let cfg = cfg\<lparr>DBUrl := val\<rparr> in
            case RunMigrations (connect (DBUrl cfg)) d of
              (Some e, d') \<Rightarrow> (1, fs, d')
            | (None, d') \<Rightarrow> save cfg d')
         else if key = ''interface'' then save (cfg\<lparr>DefaultInterface := val\<rparr>) d
         else (1, fs, d)))"

definition daemonStartCmd ::
  "(string \<Rightarrow> C \<times> string option) \<Rightarrow> os_env \<Rightarrow> (string \<Rightarrow> db_error + pool_config) \<Rightarrow> (string \<Rightarrow> string option) \<Rightarrow>
   filesystem \<Rightarrow> int"
where
  \<comment> \<open>\<open>initDB\<close> is \<open>InitDB\<close> over the driver, \<open>start\<close> the daemon's \<open>Start\<close> on the socket with its error\<close>
  "daemonStartCmd yaml_Unmarshal os initDB start fs =
     (case ReadConfig yaml_Unmarshal os fs of
        (_, Some e) \<Rightarrow> 1
      | (cfg, None) \<Rightarrow>
          (case initDB (DBUrl cfg) of
             Inl e \<Rightarrow> 1
           | Inr pool \<Rightarrow> (case start (SockPath os) of Some e \<Rightarrow> 1 | None \<Rightarrow> 0)))"

text \<open>
  The other commands send one request. \<open>send\<close> is \<open>Send\<close> on the socket: it takes the request and the
  state of the daemon to the response with its error and the daemon's next state. The arguments
  are the variables that the flags are bound to.
\<close>

definition answered :: "(Response \<times> string option) \<times> 'd \<Rightarrow> int \<times> 'd" where
  "answered r = (case r of ((resp, err), d) \<Rightarrow> (if err \<noteq> None then 1 else if \<not> OK resp then 1 else 0, d))"

definition daemonStopCmd :: "(Request \<Rightarrow> 'd \<Rightarrow> (Response \<times> string option) \<times> 'd) \<Rightarrow> 'd \<Rightarrow> int \<times> 'd" where
  "daemonStopCmd send d = answered (send (no_request\<lparr>Command := CmdShutdown\<rparr>) d)"

definition startCmd ::
  "(Request \<Rightarrow> 'd \<Rightarrow> (Response \<times> string option) \<times> 'd) \<Rightarrow> string \<Rightarrow> int \<Rightarrow> 'd \<Rightarrow> int \<times> 'd"
where
  "startCmd send iface workers d =
     answered (send (no_request\<lparr>Command := CmdStart, Interface := iface, Workers := workers\<rparr>) d)"

definition stopCmd :: "(Request \<Rightarrow> 'd \<Rightarrow> (Response \<times> string option) \<times> 'd) \<Rightarrow> string \<Rightarrow> 'd \<Rightarrow> int \<times> 'd" where
  "stopCmd send sessionID d = answered (send (no_request\<lparr>Command := CmdStop, SessionID := sessionID\<rparr>) d)"

definition session_line :: "Session \<Rightarrow> string" where
  "session_line s = ''id='' @ sID s @ ''  iface='' @ sInterface s @ ''  status='' @ sStatus s @
     ''  started='' @ sStartedAt s"

definition listCmd ::
  "(Request \<Rightarrow> 'd \<Rightarrow> (Response \<times> string option) \<times> 'd) \<Rightarrow> 'd \<Rightarrow> int \<times> string list \<times> 'd"
where
  "listCmd send d =
     (let r = send (no_request\<lparr>Command := CmdStatus\<rparr>) d; (status, d') = answered r in
      if status \<noteq> 0 then (1, [], d') else (0, map session_line (rSessions (fst (fst r))), d'))"

section \<open>Paths\<close>

lemma nls_paths:
  assumes "cs \<noteq> []" "\<forall>c \<in> set cs. is_name c" "UserHomeDir os = CHR ''/'' # Join ''/'' cs"
  shows "configPath os = CHR ''/'' # Join ''/'' (cs @ [''.config'', ''nls'', ''config.yaml''])"
    and "SockPath os = CHR ''/'' # Join ''/'' (cs @ [''.config'', ''nls'', ''nls.sock''])"
    and "filepath_Dir (configPath os) = CHR ''/'' # Join ''/'' (cs @ [''.config'', ''nls''])"
proof -
  have join: "Join ''/'' [UserHomeDir os, a, b, c] = CHR ''/'' # Join ''/'' (cs @ [a, b, c])" for a b c
    using assms(1,3) by (simp add: Join_append)
  have names: "is_name ''.config''" "is_name ''nls''" "is_name ''config.yaml''" "is_name ''nls.sock''"
    by (simp_all add: is_name_def)
  show path: "configPath os = CHR ''/'' # Join ''/'' (cs @ [''.config'', ''nls'', ''config.yaml''])"
    using Clean_abs [of "cs @ [''.config'', ''nls'', ''config.yaml'']"] assms(2,3) names
    by (simp add: configPath_def filepath_Join_def join Join_append assms(1))
  show "SockPath os = CHR ''/'' # Join ''/'' (cs @ [''.config'', ''nls'', ''nls.sock''])"
    using Clean_abs [of "cs @ [''.config'', ''nls'', ''nls.sock'']"] assms(2,3) names
    by (simp add: SockPath_def filepath_Join_def join Join_append assms(1))
  show "filepath_Dir (configPath os) = CHR ''/'' # Join ''/'' (cs @ [''.config'', ''nls''])"
    using Dir_abs [of "cs @ [''.config'', ''nls'']" "''config.yaml''"] assms(2) names by (simp add: path)
qed

section \<open>Saving\<close>

lemma MkdirAll_files [simp]: "files (MkdirAll os p fs) = files fs"
  by (simp add: MkdirAll_def)

lemma ReadConfig_files: "files fs = files fs' \<Longrightarrow> ReadConfig um os fs = ReadConfig um os fs'"
  unfolding ReadConfig_def by (elim ssubst) (rule refl)

lemma SaveConfig_result:
  assumes "ReadConfig um os fs = (cfg, err)" "err = None \<or> err = Some NotExist"
    and "\<forall>c data. ym c = Inr data \<longrightarrow> um data = (c, None)"
    and "SaveConfig um ym os u i fs = (res, fs')"
  shows "(res = None \<longrightarrow> ReadConfig um os fs' = (cfg\<lparr>DBUrl := u, DefaultInterface := i\<rparr>, None) \<and>
      (\<forall>p. p \<noteq> configPath os \<longrightarrow> files fs' p = files fs p)) \<and>
    (res \<noteq> None \<and> write_fault os = None \<longrightarrow> files fs' = files fs)"
proof -
  have again: "ReadConfig um os (MkdirAll os p fs) = (cfg, err)" for p
    using assms(1) ReadConfig_files [of "MkdirAll os p fs" fs um os] by simp
  have "read_fault os = None" using assms(1,2) by (auto simp: ReadConfig_def split: option.splits)
  then show ?thesis
    using assms(2-4) again
    by (auto simp: SaveConfig_def WriteFile_def ReadConfig_def Let_def split: sum.splits if_splits option.splits)
qed

lemma migrate_Up_schema: "migrate_Up n d = (None, d') \<Longrightarrow> schema d' = schema d + n"
  by (induction n arbitrary: d) (auto simp: migration_step_def split: sum.splits if_splits)

lemma RunMigrations_schema:
  "RunMigrations connect d = (None, d') \<Longrightarrow> schema d \<le> latest_schema \<Longrightarrow> schema d' = latest_schema"
  by (auto simp: RunMigrations_def dest: migrate_Up_schema split: option.splits)

section \<open>Properties\<close>

text \<open>
  C23: Setting one key of the configuration keeps the other. A \<open>config set\<close> that exits with 0 was
  given a known key; the file then reads back as the previous configuration, or the empty one if
  there was no file, with exactly that key changed, no other file changed, and for \<open>db-url\<close> the new
  database has the latest schema. If it does not get as far as writing the file, because the key is
  unknown, the file cannot be read or parsed or the migrations fail, no file is touched.
\<close>

theorem config_set_keeps_other_key:
  assumes "\<forall>c data. yaml_Marshal c = Inr data \<longrightarrow> yaml_Unmarshal data = (c, None)"
    and "configSetCmd yaml_Unmarshal yaml_Marshal os connect key val fs d = (code, fs', d')"
    and "schema d \<le> latest_schema"
  shows "(code = 0 \<longrightarrow>
       (key = ''db-url'' \<or> key = ''interface'') \<and>
       ReadConfig yaml_Unmarshal os fs' =
         (if key = ''db-url'' then (fst (ReadConfig yaml_Unmarshal os fs))\<lparr>DBUrl := val\<rparr>
          else (fst (ReadConfig yaml_Unmarshal os fs))\<lparr>DefaultInterface := val\<rparr>, None) \<and>
       (\<forall>p. p \<noteq> configPath os \<longrightarrow> files fs' p = files fs p) \<and>
       (if key = ''db-url'' then schema d' = latest_schema else d' = d)) \<and>
    (code \<noteq> 0 \<and> write_fault os = None \<longrightarrow> files fs' = files fs) \<and>
    (key \<notin> {''db-url'', ''interface''} \<longrightarrow> code = 1 \<and> fs' = fs \<and> d' = d) \<and>
    (\<forall>e. snd (ReadConfig yaml_Unmarshal os fs) = Some (OsError e) \<longrightarrow> code = 1 \<and> fs' = fs \<and> d' = d)"
proof -
  obtain cfg err where read: "ReadConfig yaml_Unmarshal os fs = (cfg, err)" by fastforce
  show ?thesis
  proof (cases "err = None \<or> err = Some NotExist")
    case False
    then show ?thesis using assms(2) read by (auto simp: configSetCmd_def)
  next
    case True
    note save = SaveConfig_result [OF read True assms(1)]
    have migrated: "schema d2 = latest_schema" if "RunMigrations c d = (None, d2)" for c d2
      using RunMigrations_schema [OF that assms(3)] .
    consider "key = ''db-url''" | "key = ''interface''" | "key \<notin> {''db-url'', ''interface''}" by blast
    then show ?thesis
    proof cases
      case 1
      then show ?thesis
        using assms(2) read True save [of val "DefaultInterface cfg"] migrated
        by (cases "SaveConfig yaml_Unmarshal yaml_Marshal os val (DefaultInterface cfg) fs")
          (auto simp: configSetCmd_def Let_def split: prod.splits option.splits)
    next
      case 2
      then show ?thesis
        using assms(2) read True save [of "DBUrl cfg" val]
        by (cases "SaveConfig yaml_Unmarshal yaml_Marshal os (DBUrl cfg) val fs")
          (auto simp: configSetCmd_def Let_def split: prod.splits option.splits)
    next
      case 3
      then show ?thesis using assms(2) read True by (auto simp: configSetCmd_def)
    qed
  qed
qed

definition sample_yaml :: "C \<Rightarrow> string + string" where
  "sample_yaml c = (if CHR '':'' \<in> set (DBUrl c) then Inl ''colon'' else Inr (DBUrl c @ '':'' @ DefaultInterface c))"

definition sample_unyaml :: "string \<Rightarrow> C \<times> string option" where
  "sample_unyaml s =
     (\<lparr>DBUrl = takeWhile (\<lambda>c. c \<noteq> CHR '':'') s, DefaultInterface = tl (dropWhile (\<lambda>c. c \<noteq> CHR '':'') s)\<rparr>, None)"

lemma sample_unyaml_yaml: "\<forall>c data. sample_yaml c = Inr data \<longrightarrow> sample_unyaml data = (c, None)"
  by (auto simp: sample_yaml_def sample_unyaml_def takeWhile_append dropWhile_append split: if_splits)

definition sample_os :: os_env where
  "sample_os = \<lparr>UserHomeDir = ''/root'', mkdir_fault = False, read_fault = None, write_fault = None\<rparr>"

definition sample_fs :: filesystem where
  "sample_fs = \<lparr>files = [configPath sample_os \<mapsto> ''db:''], dirs = []\<rparr>"

lemma config_set_keeps_other_key_witness:
  "ReadConfig sample_unyaml sample_os
     (fst (snd (configSetCmd sample_unyaml sample_yaml sample_os (\<lambda>_. None) ''interface'' ''eth0'' sample_fs
       (empty_db 6)))) = (\<lparr>DBUrl = ''db'', DefaultInterface = ''eth0''\<rparr>, None)"
proof -
  obtain code fs' d' where run: "configSetCmd sample_unyaml sample_yaml sample_os (\<lambda>_. None) ''interface'' ''eth0''
      sample_fs (empty_db 6) = (code, fs', d')" by (metis prod_cases3)
  then have "code = 0"
    by (auto simp: configSetCmd_def SaveConfig_def ReadConfig_def WriteFile_def MkdirAll_def sample_fs_def sample_os_def
        sample_unyaml_def sample_yaml_def Let_def)
  have "ReadConfig sample_unyaml sample_os sample_fs = (\<lparr>DBUrl = ''db'', DefaultInterface = []\<rparr>, None)"
    by (simp add: ReadConfig_def sample_fs_def) (simp add: sample_os_def sample_unyaml_def)
  with config_set_keeps_other_key [OF sample_unyaml_yaml run] \<open>code = 0\<close> show ?thesis
    unfolding run by (simp add: empty_db_def)
qed

end
