(* ===== verification/Cli.thy ===== *)
theory Cli
  imports Nls
begin

text \<open>
  The command line of \<open>nls\<close>: the tree of commands and flags that \<open>live-sniffer/cmd/nls/main.go\<close> builds and
  its \<open>main\<close>. The library that reads the arguments is a parameter: it gets the tree and
  the arguments and says which command runs with which values. \<open>dispatches\<close> is what the code
  relies on in it.
\<close>

section \<open>The tree of commands\<close>











section \<open>Reading the arguments\<close>








section \<open>\<open>main\<close>\<close>








section \<open>The commands and the daemon\<close>





















section \<open>A library that dispatches\<close>
















end
